theory Spec2Isabelle
  imports Main "HOL-Library.Sublist" "HOL-Library.Word"
begin

section \<open>JavaScript string primitives used by the pages\<close>

text \<open>
  A JavaScript string is a sequence of UTF-16 code units. The texts that the search
  lower-cases and compares (names, descriptions, titles, categories and the query, which
  is free user input) are kept as such sequences, \<open>jsstring\<close>; \<open>utf16\<close> writes
  an ASCII literal as one.
\<close>

type_synonym code_unit = "16 word"

type_synonym jsstring = "code_unit list"

definition utf16 :: "string \<Rightarrow> jsstring" where
  "utf16 s = map of_char s"

text \<open>
  \<^verbatim>\<open>s.toLowerCase()\<close> is the engine's. On a string of Latin-1 code units (all
  below 256) it maps each unit on its own: the letters A..Z and the accented capitals
  0xC0..0xDE (0xD7, the multiplication sign, apart) move up by 32, every other unit
  stays. Beyond Latin-1 the Unicode case mapping depends on the context (a capital sigma
  at the end of a word becomes the final sigma) and can change the length of the string;
  it is not part of the repository, so there it is the argument \<open>caseMap\<close>, about
  which nothing is assumed.
\<close>

definition isLatin1 :: "jsstring \<Rightarrow> bool" where
  "isLatin1 s = list_all (\<lambda>u. u \<le> 0xFF) s"

definition toLowerUnit :: "code_unit \<Rightarrow> code_unit" where
  "toLowerUnit u =
     (if (0x41 \<le> u \<and> u \<le> 0x5A) \<or> (0xC0 \<le> u \<and> u \<le> 0xDE \<and> u \<noteq> 0xD7)
      then u + 0x20 else u)"

definition toLowerCase :: "(jsstring \<Rightarrow> jsstring) \<Rightarrow> jsstring \<Rightarrow> jsstring" where
  "toLowerCase caseMap s = (if isLatin1 s then map toLowerUnit s else caseMap s)"

text \<open>\<^verbatim>\<open>s.startsWith(q)\<close> and \<^verbatim>\<open>s.includes(q)\<close>, both from position 0.\<close>

fun startsWith :: "'a list \<Rightarrow> 'a list \<Rightarrow> bool" where
  "startsWith s [] = True"
| "startsWith [] (y # ys) = False"
| "startsWith (x # xs) (y # ys) = (x = y \<and> startsWith xs ys)"

fun js_includes :: "'a list \<Rightarrow> 'a list \<Rightarrow> bool" where
  "js_includes [] q = (q = [])"
| "js_includes (x # xs) q = (startsWith (x # xs) q \<or> js_includes xs q)"

text \<open>
  The prompt of the Create Report page, the route paths and the texts of the report
  preview are only trimmed, compared with literals or copied. They are kept as
  \<^typ>\<open>string\<close>, one \<^typ>\<open>char\<close> for each code unit 0..255.
  \<^verbatim>\<open>s.trim()\<close> removes white space and line terminators from both ends; below
  256 these are TAB, LF, VT, FF, CR, SPACE and NBSP.
\<close>

definition isWhiteSpace :: "char \<Rightarrow> bool" where
  "isWhiteSpace c =
     (let n = (of_char c :: nat) in (9 \<le> n \<and> n \<le> 13) \<or> n = 32 \<or> n = 160)"

definition trim :: "string \<Rightarrow> string" where
  "trim s = rev (dropWhile isWhiteSpace (rev (dropWhile isWhiteSpace s)))"

text \<open>
  Truthiness of a value of type \<^verbatim>\<open>string | null\<close> (or of an optional string
  property): \<^verbatim>\<open>null\<close>, \<^verbatim>\<open>undefined\<close> and the empty string are falsy.
\<close>

definition truthy :: "'a list option \<Rightarrow> bool" where
  "truthy v = (case v of None \<Rightarrow> False | Some s \<Rightarrow> s \<noteq> [])"

section \<open>Display records\<close>

text \<open>
  The fixtures \<^verbatim>\<open>mockTemplates\<close>, \<^verbatim>\<open>mockReports\<close> and
  \<^verbatim>\<open>mockGeneratedReport\<close> live in \<^verbatim>\<open>@/lib/mockData\<close>; the pages only
  read them, so every function below takes the fixture as its first argument.
\<close>

record template =
  template_id :: jsstring
  template_name :: jsstring
  template_category :: jsstring
  template_description :: jsstring

datatype report_status = draft | published

record report =
  report_id :: jsstring
  report_title :: jsstring
  report_createdAt :: jsstring
  report_status :: report_status
  report_template :: "jsstring option"

section \<open>Templates page: search and category filter\<close>

text \<open>
  \<^verbatim>\<open>
  const categories = [...new Set(mockTemplates.map((t) => t.category))];
  const filteredTemplates = mockTemplates.filter((template) => {
    const matchesSearch = template.name.toLowerCase().includes(searchQuery.toLowerCase()) ||
      template.description.toLowerCase().includes(searchQuery.toLowerCase());
    const matchesCategory = !selectedCategory || template.category === selectedCategory;
    return matchesSearch && matchesCategory;
  });
  \<close>
  A \<^verbatim>\<open>Set\<close> keeps the first occurrence of each value, in insertion order.
\<close>

definition categories :: "template list \<Rightarrow> jsstring list" where
  "categories mockTemplates = rev (remdups (rev (map template_category mockTemplates)))"

definition template_matchesSearch ::
  "(jsstring \<Rightarrow> jsstring) \<Rightarrow> jsstring \<Rightarrow> template \<Rightarrow> bool" where
  "template_matchesSearch caseMap searchQuery t =
     (js_includes (toLowerCase caseMap (template_name t)) (toLowerCase caseMap searchQuery) \<or>
      js_includes (toLowerCase caseMap (template_description t))
        (toLowerCase caseMap searchQuery))"

definition matchesCategory :: "jsstring option \<Rightarrow> template \<Rightarrow> bool" where
  "matchesCategory selectedCategory t =
     (\<not> truthy selectedCategory \<or> Some (template_category t) = selectedCategory)"

definition filteredTemplates ::
  "(jsstring \<Rightarrow> jsstring) \<Rightarrow> template list \<Rightarrow> jsstring \<Rightarrow> jsstring option
     \<Rightarrow> template list" where
  "filteredTemplates caseMap mockTemplates searchQuery selectedCategory =
     filter (\<lambda>t. template_matchesSearch caseMap searchQuery t
                 \<and> matchesCategory selectedCategory t)
       mockTemplates"

text \<open>
  The category buttons show which selection is active:
  \<^verbatim>\<open>
  <Button variant={selectedCategory === null ? 'default' : 'outline'} ...
          onClick={() => setSelectedCategory(null)}> All Categories </Button>
  {categories.map((category) => (
    <Button key={category} variant={selectedCategory === category ? 'default' : 'outline'} ...
            onClick={() => setSelectedCategory(category)}> {category} </Button> ))}
  \<close>
\<close>

definition allCategoriesActive :: "jsstring option \<Rightarrow> bool" where
  "allCategoriesActive selectedCategory = (selectedCategory = None)"

definition categoryActive :: "jsstring option \<Rightarrow> jsstring \<Rightarrow> bool" where
  "categoryActive selectedCategory category = (selectedCategory = Some category)"

section \<open>My Reports page: search and status filter\<close>

text \<open>
  \<^verbatim>\<open>
  const [statusFilter, setStatusFilter] = useState<'all' | 'draft' | 'published'>('all');
  const filteredReports = mockReports.filter((report) => {
    const matchesSearch = report.title.toLowerCase().includes(searchQuery.toLowerCase());
    const matchesStatus = statusFilter === 'all' || report.status === statusFilter;
    return matchesSearch && matchesStatus;
  });
  \<close>
\<close>

datatype status_filter = all | only report_status

definition report_matchesSearch ::
  "(jsstring \<Rightarrow> jsstring) \<Rightarrow> jsstring \<Rightarrow> report \<Rightarrow> bool" where
  "report_matchesSearch caseMap searchQuery r =
     js_includes (toLowerCase caseMap (report_title r)) (toLowerCase caseMap searchQuery)"

definition matchesStatus :: "status_filter \<Rightarrow> report \<Rightarrow> bool" where
  "matchesStatus statusFilter r = (statusFilter = all \<or> only (report_status r) = statusFilter)"

definition filteredReports ::
  "(jsstring \<Rightarrow> jsstring) \<Rightarrow> report list \<Rightarrow> jsstring \<Rightarrow> status_filter
     \<Rightarrow> report list" where
  "filteredReports caseMap mockReports searchQuery statusFilter =
     filter (\<lambda>r. report_matchesSearch caseMap searchQuery r \<and> matchesStatus statusFilter r)
       mockReports"

section \<open>Timers of the event loop\<close>

text \<open>
  \<^verbatim>\<open>await new Promise((resolve) => setTimeout(resolve, delay))\<close> suspends the
  handler; the rest of the handler is the callback that runs when the timer fires. A
  pending timer is its due time (in ms on the page's clock) with the callback. Timers are
  kept in registration order; the one that fires next is the earliest due, the first
  registered among equals. No page calls \<^verbatim>\<open>clearTimeout\<close>.
\<close>

type_synonym 'k timer = "nat \<times> 'k"

definition setTimeout :: "'k \<Rightarrow> nat \<Rightarrow> nat \<Rightarrow> 'k timer list \<Rightarrow> 'k timer list" where
  "setTimeout callback delay now pending = pending @ [(now + delay, callback)]"

fun nextTimer :: "'k timer list \<Rightarrow> 'k timer option" where
  "nextTimer [] = None"
| "nextTimer (t # ts) =
     (case nextTimer ts of
        None \<Rightarrow> Some t
      | Some u \<Rightarrow> if fst u < fst t then Some u else Some t)"

text \<open>Time may pass by \<open>d\<close> ms without a timer firing only if none is due before then.\<close>

definition mayElapse :: "nat \<Rightarrow> nat \<Rightarrow> 'k timer list \<Rightarrow> bool" where
  "mayElapse now d pending = list_all (\<lambda>t. now + d \<le> fst t) pending"

section \<open>Create Report page\<close>

text \<open>
  \<^verbatim>\<open>
  const [prompt, setPrompt] = useState('');
  const [isGenerating, setIsGenerating] = useState(false);
  const handleGenerate = async () => {
    if (!prompt.trim()) return;
    setIsGenerating(true);
    await new Promise((resolve) => setTimeout(resolve, 2000));
    setIsGenerating(false);
    navigate('/reports/preview', { state: { prompt } });
  };
  \<close>
  The callback closes over the \<^verbatim>\<open>prompt\<close> of the render in which the handler was
  invoked. \<open>navigated\<close> records the calls of \<^verbatim>\<open>navigate\<close>: the path and the
  prompt carried in the location state.
\<close>

datatype create_callback = ResumeGenerate string

record create_state =
  prompt :: string
  isGenerating :: bool
  create_clock :: nat
  create_timers :: "create_callback timer list"
  navigated :: "(string \<times> string) list"

definition create_init :: create_state where
  "create_init = \<lparr>prompt = [], isGenerating = False, create_clock = 0,
                   create_timers = [], navigated = []\<rparr>"

definition suggestions :: "string list" where
  "suggestions =
     [''Generate a Q4 marketing performance report with campaign metrics and ROI analysis'',
      ''Create an executive summary of our annual sales data with key insights'',
      ''Analyze customer satisfaction survey results and identify improvement areas'',
      ''Prepare a competitive market analysis for the enterprise software sector'']"

definition handleGenerate :: "create_state \<Rightarrow> create_state" where
  "handleGenerate s =
     (if trim (prompt s) = [] then s
      else s\<lparr>isGenerating := True,
             create_timers :=
               setTimeout (ResumeGenerate (prompt s)) 2000 (create_clock s) (create_timers s)\<rparr>)"

fun create_resume :: "create_callback \<Rightarrow> create_state \<Rightarrow> create_state" where
  "create_resume (ResumeGenerate p) s =
     s\<lparr>isGenerating := False, navigated := navigated s @ [(''/reports/preview'', p)]\<rparr>"

text \<open>\<^verbatim>\<open>disabled={!prompt.trim() || isGenerating}\<close>\<close>

definition generate_disabled :: "create_state \<Rightarrow> bool" where
  "generate_disabled s = (trim (prompt s) = [] \<or> isGenerating s)"

definition handleSuggestionClick :: "string \<Rightarrow> create_state \<Rightarrow> create_state" where
  "handleSuggestionClick suggestion s = s\<lparr>prompt := suggestion\<rparr>"

text \<open>
  What can happen to the mounted page: the user edits the text area, clicks one of the
  suggestion buttons (there is one per index of \<open>suggestions\<close>), clicks the Generate
  button (a disabled button dispatches no click), the next timer fires, or time passes.
\<close>

datatype create_event =
  ChangePrompt string | ClickSuggestion nat | ClickGenerate | CreateTimerFires | CreateWait nat

definition create_fire :: "create_state \<Rightarrow> create_state" where
  "create_fire s =
     (case nextTimer (create_timers s) of
        None \<Rightarrow> s
      | Some (due, callback) \<Rightarrow>
          create_resume callback
            (s\<lparr>create_clock := max (create_clock s) due,
               create_timers := remove1 (due, callback) (create_timers s)\<rparr>))"

fun create_step :: "create_event \<Rightarrow> create_state \<Rightarrow> create_state" where
  "create_step (ChangePrompt p) s = s\<lparr>prompt := p\<rparr>"
| "create_step (ClickSuggestion i) s =
     (if i < length suggestions then handleSuggestionClick (suggestions ! i) s else s)"
| "create_step ClickGenerate s = (if generate_disabled s then s else handleGenerate s)"
| "create_step CreateTimerFires s = create_fire s"
| "create_step (CreateWait d) s =
     (if mayElapse (create_clock s) d (create_timers s)
      then s\<lparr>create_clock := create_clock s + d\<rparr> else s)"

definition create_run :: "create_event list \<Rightarrow> create_state \<Rightarrow> create_state" where
  "create_run es s = foldl (\<lambda>s e. create_step e s) s es"

section \<open>Report Preview page: publishing\<close>

text \<open>
  \<^verbatim>\<open>
  const [isPublishing, setIsPublishing] = useState(false);
  const [isPublished, setIsPublished] = useState(false);
  const handlePublish = async () => {
    setIsPublishing(true);
    await new Promise((resolve) => setTimeout(resolve, 1500));
    setIsPublishing(false);
    setIsPublished(true);
  };
  \<close>
\<close>

datatype preview_callback = ResumePublish

record preview_state =
  isPublishing :: bool
  isPublished :: bool
  preview_clock :: nat
  preview_timers :: "preview_callback timer list"

definition preview_init :: preview_state where
  "preview_init = \<lparr>isPublishing = False, isPublished = False, preview_clock = 0,
                    preview_timers = []\<rparr>"

definition handlePublish :: "preview_state \<Rightarrow> preview_state" where
  "handlePublish s =
     s\<lparr>isPublishing := True,
       preview_timers := setTimeout ResumePublish 1500 (preview_clock s) (preview_timers s)\<rparr>"

fun preview_resume :: "preview_callback \<Rightarrow> preview_state \<Rightarrow> preview_state" where
  "preview_resume ResumePublish s = s\<lparr>isPublishing := False, isPublished := True\<rparr>"

text \<open>\<^verbatim>\<open>disabled={isPublishing || isPublished}\<close>\<close>

definition publish_disabled :: "preview_state \<Rightarrow> bool" where
  "publish_disabled s = (isPublishing s \<or> isPublished s)"

datatype preview_event = ClickPublish | PreviewTimerFires | PreviewWait nat

definition preview_fire :: "preview_state \<Rightarrow> preview_state" where
  "preview_fire s =
     (case nextTimer (preview_timers s) of
        None \<Rightarrow> s
      | Some (due, callback) \<Rightarrow>
          preview_resume callback
            (s\<lparr>preview_clock := max (preview_clock s) due,
               preview_timers := remove1 (due, callback) (preview_timers s)\<rparr>))"

fun preview_step :: "preview_event \<Rightarrow> preview_state \<Rightarrow> preview_state" where
  "preview_step ClickPublish s = (if publish_disabled s then s else handlePublish s)"
| "preview_step PreviewTimerFires s = preview_fire s"
| "preview_step (PreviewWait d) s =
     (if mayElapse (preview_clock s) d (preview_timers s)
      then s\<lparr>preview_clock := preview_clock s + d\<rparr> else s)"

definition preview_run :: "preview_event list \<Rightarrow> preview_state \<Rightarrow> preview_state" where
  "preview_run es s = foldl (\<lambda>s e. preview_step e s) s es"

section \<open>Settings page: saving\<close>

text \<open>
  \<^verbatim>\<open>
  const [isSaving, setIsSaving] = useState(false);
  const [saved, setSaved] = useState(false);
  const handleSave = async () => {
    setIsSaving(true);
    await new Promise((resolve) => setTimeout(resolve, 1000));
    setIsSaving(false);
    setSaved(true);
    setTimeout(() => setSaved(false), 2000);
  };
  \<close>
\<close>

datatype settings_callback = ResumeSave | ClearSaved

record settings_state =
  isSaving :: bool
  saved :: bool
  settings_clock :: nat
  settings_timers :: "settings_callback timer list"

definition settings_init :: settings_state where
  "settings_init = \<lparr>isSaving = False, saved = False, settings_clock = 0,
                     settings_timers = []\<rparr>"

definition handleSave :: "settings_state \<Rightarrow> settings_state" where
  "handleSave s =
     s\<lparr>isSaving := True,
       settings_timers := setTimeout ResumeSave 1000 (settings_clock s) (settings_timers s)\<rparr>"

fun settings_resume :: "settings_callback \<Rightarrow> settings_state \<Rightarrow> settings_state" where
  "settings_resume ResumeSave s =
     s\<lparr>isSaving := False, saved := True,
       settings_timers := setTimeout ClearSaved 2000 (settings_clock s) (settings_timers s)\<rparr>"
| "settings_resume ClearSaved s = s\<lparr>saved := False\<rparr>"

text \<open>\<^verbatim>\<open>disabled={isSaving}\<close>\<close>

definition save_disabled :: "settings_state \<Rightarrow> bool" where
  "save_disabled s = isSaving s"

definition settings_fire :: "settings_state \<Rightarrow> settings_state" where
  "settings_fire s =
     (case nextTimer (settings_timers s) of
        None \<Rightarrow> s
      | Some (due, callback) \<Rightarrow>
          settings_resume callback
            (s\<lparr>settings_clock := max (settings_clock s) due,
               settings_timers := remove1 (due, callback) (settings_timers s)\<rparr>))"

section \<open>Application shell and its authentication gate\<close>

text \<open>
  \<^verbatim>\<open>
  export function AppLayout({ children }: AppLayoutProps) {
    const { isAuthenticated } = useAuth();
    if (!isAuthenticated) {
      return <Navigate to="/auth" replace />;
    }
    return ( <div ...> <Sidebar /> <main ...> {children} </main> </div> );
  }
  \<close>
  \<^verbatim>\<open>useAuth\<close> comes from \<^verbatim>\<open>@/contexts/AuthContext\<close>; the flag it
  provides is an argument here. An element is either the redirect (target and the
  \<^verbatim>\<open>replace\<close> attribute), the shell around a content, or a content on its own.
\<close>

datatype 'a element = Navigate string bool | Shell 'a | Bare 'a

definition AppLayout :: "bool \<Rightarrow> 'a \<Rightarrow> 'a element" where
  "AppLayout isAuthenticated children =
     (if \<not> isAuthenticated then Navigate ''/auth'' True else Shell children)"

section \<open>Report Preview page: sections and citations\<close>

text \<open>
  A row of a table section is an object; it is given here as the list of its entries in
  the order of \<^verbatim>\<open>Object.entries\<close>, each value already converted by
  \<^verbatim>\<open>String(value)\<close>. \<^verbatim>\<open>section.data\<close>, \<^verbatim>\<open>section.content\<close>
  and \<^verbatim>\<open>citation.url\<close> may be absent.
\<close>

type_synonym row = "(string \<times> string) list"

record report_section =
  section_id :: string
  section_title :: string
  section_type :: string
  section_content :: "string option"
  section_data :: "row list option"

record citation =
  citation_id :: string
  citation_source :: string
  citation_excerpt :: string
  citation_url :: "string option"

record generated_report =
  executiveSummary :: string
  sections :: "report_section list"
  citations :: "citation list"

datatype js_error = TypeError

datatype icon = TableIcon | LightbulbIcon

datatype tone = text_success | text_destructive | no_tone

record cell_view =
  cell_key :: string
  cell_first :: bool
  cell_tone :: tone
  cell_text :: string

datatype section_body =
  TableBody "string list" "cell_view list list"
  | Paragraph "string option"

record section_view =
  sv_key :: string
  sv_index :: nat
  sv_icon :: icon
  sv_title :: string
  sv_body :: section_body

text \<open>
  \<^verbatim>\<open>
  {Object.entries(row).map(([key, value], cellIndex) => (
    <td key={key} className={`py-3 text-sm ${cellIndex === 0 ? ... : ...} ${
        String(value).startsWith('+') ? 'text-success' :
        String(value).startsWith('-') ? 'text-destructive' : ''}`}>
      {String(value)}
    </td>))}
  \<close>
\<close>

definition render_cell :: "nat \<Rightarrow> string \<times> string \<Rightarrow> cell_view" where
  "render_cell cellIndex entry =
     \<lparr>cell_key = fst entry,
      cell_first = (cellIndex = 0),
      cell_tone = (if startsWith (snd entry) ''+'' then text_success
                   else if startsWith (snd entry) ''-'' then text_destructive else no_tone),
      cell_text = snd entry\<rparr>"

definition render_row :: "row \<Rightarrow> cell_view list" where
  "render_row r = map (\<lambda>(cellIndex, entry). render_cell cellIndex entry) (enumerate 0 r)"

text \<open>
  \<^verbatim>\<open>
  {section.type === 'table' ? <Table .../> : <Lightbulb .../>}
  ...
  {section.type === 'table' && section.data ? (
     <table> <thead> ... {Object.keys(section.data[0]).map((key) => <th key={key}>{key}</th>)}
             <tbody> {section.data.map((row, rowIndex) => <tr key={rowIndex}> ... </tr>)}
  ) : (
     <p ...>{section.content}</p>
  )}
  \<close>
  An array is truthy, the empty one too. \<^verbatim>\<open>section.data[0]\<close> of an empty
  array is \<^verbatim>\<open>undefined\<close>, and \<^verbatim>\<open>Object.keys(undefined)\<close> throws a
  TypeError.
\<close>

definition render_body :: "report_section \<Rightarrow> js_error + section_body" where
  "render_body s =
     (if section_type s = ''table'' \<and> section_data s \<noteq> None
      then (case section_data s of
              Some (row0 # rest) \<Rightarrow> Inr (TableBody (map fst row0) (map render_row (row0 # rest)))
            | _ \<Rightarrow> Inl TypeError)
      else Inr (Paragraph (section_content s)))"

definition render_section :: "nat \<Rightarrow> report_section \<Rightarrow> js_error + section_view" where
  "render_section index s =
     (case render_body s of
        Inl e \<Rightarrow> Inl e
      | Inr body \<Rightarrow>
          Inr \<lparr>sv_key = section_id s, sv_index = index,
               sv_icon = (if section_type s = ''table'' then TableIcon else LightbulbIcon),
               sv_title = section_title s, sv_body = body\<rparr>)"

text \<open>\<^verbatim>\<open>report.sections.map((section, index) => ...)\<close>: the first exception ends it.\<close>

fun render_sections :: "nat \<Rightarrow> report_section list \<Rightarrow> js_error + section_view list" where
  "render_sections index [] = Inr []"
| "render_sections index (s # ss) =
     (case render_section index s of
        Inl e \<Rightarrow> Inl e
      | Inr v \<Rightarrow> (case render_sections (Suc index) ss of
                    Inl e \<Rightarrow> Inl e
                  | Inr vs \<Rightarrow> Inr (v # vs)))"

text \<open>
  \<^verbatim>\<open>
  {report.citations.map((citation, index) => (
    <div key={citation.id}>
      ... <span ...>{index + 1}</span>
      {citation.url && ( <Button ... asChild> <a href={citation.url} target="_blank" ...> ... )}
      <p ...>{citation.source}</p> <p ...>{citation.excerpt}</p>
      {index < report.citations.length - 1 && <Separator className="my-4" />}
    </div>))}
  \<close>
\<close>

record citation_view =
  cv_key :: string
  cv_number :: nat
  cv_link :: "string option"
  cv_source :: string
  cv_excerpt :: string
  cv_separator :: bool

definition render_citation :: "nat \<Rightarrow> nat \<Rightarrow> citation \<Rightarrow> citation_view" where
  "render_citation len index c =
     \<lparr>cv_key = citation_id c,
      cv_number = index + 1,
      cv_link = (if truthy (citation_url c) then citation_url c else None),
      cv_source = citation_source c,
      cv_excerpt = citation_excerpt c,
      cv_separator = (int index < int len - 1)\<rparr>"

definition render_citations :: "citation list \<Rightarrow> citation_view list" where
  "render_citations cs =
     map (\<lambda>(index, c). render_citation (length cs) index c) (enumerate 0 cs)"

record preview_view =
  pv_summary :: string
  pv_sections :: "section_view list"
  pv_citations :: "citation_view list"

definition render_report :: "generated_report \<Rightarrow> js_error + preview_view" where
  "render_report report =
     (case render_sections 0 (sections report) of
        Inl e \<Rightarrow> Inl e
      | Inr svs \<Rightarrow>
          Inr \<lparr>pv_summary = executiveSummary report, pv_sections = svs,
               pv_citations = render_citations (citations report)\<rparr>)"

section \<open>The views and their gate\<close>

text \<open>
  The views of the routing table of \<^verbatim>\<open>App.tsx\<close>. Dashboard, CreateReport,
  ReportPreview, MyReports, Templates and Settings return
  \<^verbatim>\<open><AppLayout> ... </AppLayout>\<close>: the page function first builds the children
  (the expressions between the tags are evaluated when the element is created), and only
  then is \<^verbatim>\<open>AppLayout\<close> called with them. The children of ReportPreview are
  the rendering of \<^verbatim>\<open>mockGeneratedReport\<close> above, which can throw; an exception
  there ends the page function before \<^verbatim>\<open>AppLayout\<close> runs. The children of the
  other five pages are built from the string fields of the fixtures and of the user by
  operations that do not throw (optional chaining, \<^verbatim>\<open>slice\<close>,
  \<^verbatim>\<open>map\<close>, \<^verbatim>\<open>filter\<close>, \<^verbatim>\<open>toLowerCase\<close>,
  \<^verbatim>\<open>includes\<close>, \<^verbatim>\<open>toLocaleDateString\<close>); they are kept abstract.
  Landing and NotFound render on their own; Auth redirects to the dashboard when the flag
  is set.
\<close>

datatype view =
  Landing | Auth | Dashboard | CreateReport | ReportPreview | MyReports | Templates
  | Settings | NotFound

datatype content = PageContent view | PreviewContent preview_view

fun render_view :: "bool \<Rightarrow> generated_report \<Rightarrow> view \<Rightarrow> js_error + content element" where
  "render_view isAuthenticated mockGeneratedReport Landing = Inr (Bare (PageContent Landing))"
| "render_view isAuthenticated mockGeneratedReport Auth =
     Inr (if isAuthenticated then Navigate ''/dashboard'' True else Bare (PageContent Auth))"
| "render_view isAuthenticated mockGeneratedReport NotFound = Inr (Bare (PageContent NotFound))"
| "render_view isAuthenticated mockGeneratedReport ReportPreview =
     (case render_report mockGeneratedReport of
        Inl e \<Rightarrow> Inl e
      | Inr children \<Rightarrow> Inr (AppLayout isAuthenticated (PreviewContent children)))"
| "render_view isAuthenticated mockGeneratedReport v =
     Inr (AppLayout isAuthenticated (PageContent v))"

definition wrapped_views :: "view list" where
  "wrapped_views = [Dashboard, CreateReport, ReportPreview, MyReports, Templates, Settings]"

section \<open>The properties in the specification's words\<close>

text \<open>
  A text matches a query after lower-casing when the lower-cased text has the lower-cased
  query as a contiguous part.
\<close>

definition containsLowered :: "(jsstring \<Rightarrow> jsstring) \<Rightarrow> jsstring \<Rightarrow> jsstring \<Rightarrow> bool" where
  "containsLowered caseMap s query =
     (\<exists>before after. toLowerCase caseMap s = before @ toLowerCase caseMap query @ after)"

definition templateMatches :: "(jsstring \<Rightarrow> jsstring) \<Rightarrow> jsstring \<Rightarrow> template \<Rightarrow> bool" where
  "templateMatches caseMap query t =
     (containsLowered caseMap (template_name t) query \<or>
      containsLowered caseMap (template_description t) query)"

definition reportMatches :: "(jsstring \<Rightarrow> jsstring) \<Rightarrow> jsstring \<Rightarrow> report \<Rightarrow> bool" where
  "reportMatches caseMap query r = containsLowered caseMap (report_title r) query"

text \<open>
  Letter by letter: two code units are the same letter when they are equal or are the
  capital and the small form of one Latin-1 letter; a text contains a query
  case-insensitively when some contiguous part of the text is the query letter by letter.
\<close>

definition isUpperUnit :: "code_unit \<Rightarrow> bool" where
  "isUpperUnit u =
     ((0x41 \<le> u \<and> u \<le> 0x5A) \<or> (0xC0 \<le> u \<and> u \<le> 0xDE \<and> u \<noteq> 0xD7))"

definition sameLetter :: "code_unit \<Rightarrow> code_unit \<Rightarrow> bool" where
  "sameLetter a b =
     (a = b \<or> (isUpperUnit a \<and> b = a + 0x20) \<or> (isUpperUnit b \<and> a = b + 0x20))"

definition containsIgnoringCase :: "jsstring \<Rightarrow> jsstring \<Rightarrow> bool" where
  "containsIgnoringCase s query =
     (\<exists>before part after. s = before @ part @ after \<and> list_all2 sameLetter part query)"

definition templateContains :: "jsstring \<Rightarrow> template \<Rightarrow> bool" where
  "templateContains query t =
     (containsIgnoringCase (template_name t) query \<or>
      containsIgnoringCase (template_description t) query)"

definition reportContains :: "jsstring \<Rightarrow> report \<Rightarrow> bool" where
  "reportContains query r = containsIgnoringCase (report_title r) query"

definition whitespaceOnly :: "string \<Rightarrow> bool" where
  "whitespaceOnly p = list_all isWhiteSpace p"

text \<open>Whether a rendered section body is a table.\<close>

definition is_table :: "section_body \<Rightarrow> bool" where
  "is_table b = (case b of TableBody keys rows \<Rightarrow> True | Paragraph content \<Rightarrow> False)"

section \<open>Invariants of the page state machines\<close>

text \<open>
  \<open>create_inv\<close> and \<open>preview_inv\<close> hold in every state reached from the initial
  one. \<open>create_pending s0 s\<close> says that \<open>s\<close> lies between the click made in
  \<open>s0\<close> and the firing of its timer; \<open>preview_done\<close> is the state after a
  publication.
\<close>

definition create_inv :: "create_state \<Rightarrow> bool" where
  "create_inv s = (length (create_timers s) \<le> 1 \<and> (isGenerating s \<longleftrightarrow> create_timers s \<noteq> []))"

definition create_pending :: "create_state \<Rightarrow> create_state \<Rightarrow> bool" where
  "create_pending s0 s =
     (create_timers s = [(create_clock s0 + 2000, ResumeGenerate (prompt s0))]
      \<and> isGenerating s \<and> create_clock s \<le> create_clock s0 + 2000
      \<and> navigated s = navigated s0)"

definition preview_inv :: "preview_state \<Rightarrow> bool" where
  "preview_inv s =
     (length (preview_timers s) \<le> 1 \<and> (isPublishing s \<longleftrightarrow> preview_timers s \<noteq> [])
      \<and> \<not> (isPublishing s \<and> isPublished s))"

definition preview_pending :: "preview_state \<Rightarrow> preview_state \<Rightarrow> bool" where
  "preview_pending s0 s =
     (preview_timers s = [(preview_clock s0 + 1500, ResumePublish)]
      \<and> isPublishing s \<and> \<not> isPublished s \<and> preview_clock s \<le> preview_clock s0 + 1500)"

definition preview_done :: "preview_state \<Rightarrow> bool" where
  "preview_done s = (isPublished s \<and> \<not> isPublishing s \<and> preview_timers s = [])"

section \<open>Example fixtures\<close>

definition demo_templates :: "template list" where
  "demo_templates =
     [\<lparr>template_id = utf16 ''1'', template_name = utf16 ''Campaign Report'',
       template_category = utf16 ''Marketing'',
       template_description = utf16 ''Quarterly campaign metrics''\<rparr>,
      \<lparr>template_id = utf16 ''2'', template_name = utf16 ''Pipeline Review'',
       template_category = utf16 ''Sales'',
       template_description = utf16 ''Weekly sales REPORT''\<rparr>,
      \<lparr>template_id = utf16 ''3'', template_name = utf16 ''Budget Plan'',
       template_category = utf16 ''Finance'', template_description = utf16 ''Annual budget''\<rparr>]"

definition demo_reports :: "report list" where
  "demo_reports =
     [\<lparr>report_id = utf16 ''1'', report_title = utf16 ''Q4 Marketing Analysis'',
       report_createdAt = utf16 ''2024-01-15'', report_status = published,
       report_template = Some (utf16 ''Marketing'')\<rparr>,
      \<lparr>report_id = utf16 ''2'', report_title = utf16 ''Market Report'',
       report_createdAt = utf16 ''2024-01-10'', report_status = draft, report_template = None\<rparr>,
      \<lparr>report_id = utf16 ''3'', report_title = utf16 ''Hiring Plan'',
       report_createdAt = utf16 ''2024-01-05'', report_status = draft, report_template = None\<rparr>]"

text \<open>
  A report whose title is the Greek word for street in capitals (omicron, delta, omicron,
  sigma: U+039F U+0394 U+039F U+03A3), and the query that is the capital sigma alone.
  The engine lower-cases the title to U+03BF U+03B4 U+03BF U+03C2, with the final sigma
  at the end of the word, and the query to the small sigma U+03C3; \<open>greekCaseMap\<close> is
  a case mapping that does so on these two strings.
\<close>

definition greek_title :: jsstring where
  "greek_title = [0x39F, 0x394, 0x39F, 0x3A3]"

definition greek_query :: jsstring where
  "greek_query = [0x3A3]"

definition greekCaseMap :: "jsstring \<Rightarrow> jsstring" where
  "greekCaseMap s =
     (if s = [0x39F, 0x394, 0x39F, 0x3A3] then [0x3BF, 0x3B4, 0x3BF, 0x3C2]
      else if s = [0x3A3] then [0x3C3] else s)"

definition greek_reports :: "report list" where
  "greek_reports =
     [\<lparr>report_id = utf16 ''1'', report_title = greek_title,
       report_createdAt = utf16 ''2024-01-15'', report_status = draft,
       report_template = None\<rparr>]"

text \<open>A fixture in which one template has the empty string as its category.\<close>

definition uncategorised_templates :: "template list" where
  "uncategorised_templates =
     [\<lparr>template_id = utf16 ''1'', template_name = utf16 ''Blank Page'',
       template_category = [], template_description = utf16 ''Start from scratch''\<rparr>,
      \<lparr>template_id = utf16 ''2'', template_name = utf16 ''Pipeline Review'',
       template_category = utf16 ''Sales'',
       template_description = utf16 ''Weekly sales report''\<rparr>]"

text \<open>A report whose table section has an empty array of rows, and one with rows.\<close>

definition empty_table_report :: generated_report where
  "empty_table_report =
     \<lparr>executiveSummary = ''Revenue grew in Q4.'',
      sections =
        [\<lparr>section_id = ''s1'', section_title = ''Overview'', section_type = ''text'',
          section_content = Some ''Revenue grew by 12%.'', section_data = None\<rparr>,
         \<lparr>section_id = ''s2'', section_title = ''Metrics'', section_type = ''table'',
          section_content = None, section_data = Some []\<rparr>],
      citations = []\<rparr>"

definition demo_report :: generated_report where
  "demo_report =
     \<lparr>executiveSummary = ''Revenue grew in Q4.'',
      sections =
        [\<lparr>section_id = ''s1'', section_title = ''Overview'', section_type = ''text'',
          section_content = Some ''Revenue grew by 12%.'', section_data = None\<rparr>,
         \<lparr>section_id = ''s2'', section_title = ''Metrics'', section_type = ''table'',
          section_content = None,
          section_data = Some [[(''Metric'', ''Revenue''), (''Change'', ''+12%'')],
                               [(''Metric'', ''Churn''), (''Change'', ''-3%'')]]\<rparr>],
      citations =
        [\<lparr>citation_id = ''c1'', citation_source = ''Annual report'',
          citation_excerpt = ''Revenue figures'', citation_url = Some ''https://example.com/a''\<rparr>,
         \<lparr>citation_id = ''c2'', citation_source = ''Internal memo'',
          citation_excerpt = ''Churn figures'', citation_url = None\<rparr>]\<rparr>"

section \<open>Facts about the string primitives\<close>

lemma sameLetter_iff: "sameLetter a b \<longleftrightarrow> toLowerUnit a = toLowerUnit b"
  unfolding sameLetter_def toLowerUnit_def isUpperUnit_def
  by (auto simp: word_le_nat_alt unat_word_ariths word_unat_eq_iff split: if_splits)

lemma sameLetter_lowered:
  "list_all2 sameLetter xs ys \<longleftrightarrow> map toLowerUnit xs = map toLowerUnit ys"
proof -
  have "sameLetter = (\<lambda>x y. toLowerUnit x = toLowerUnit y)"
    by (simp add: fun_eq_iff sameLetter_iff)
  then have "list_all2 sameLetter xs ys
      \<longleftrightarrow> list_all2 (=) (map toLowerUnit xs) (map toLowerUnit ys)"
    by (simp add: list.rel_map)
  then show ?thesis by (simp add: list.rel_eq)
qed

lemma toLowerCase_latin1: "isLatin1 s \<Longrightarrow> toLowerCase caseMap s = map toLowerUnit s"
  by (simp add: toLowerCase_def)

lemma toLowerCase_empty: "toLowerCase caseMap [] = []"
  by (simp add: toLowerCase_def isLatin1_def)

lemma startsWith_prefix: "startsWith s q \<longleftrightarrow> prefix q s"
  by (induction s q rule: startsWith.induct) auto

lemma js_includes_iff: "js_includes s q \<longleftrightarrow> (\<exists>pre suf. s = pre @ q @ suf)"
proof (induction s)
  case Nil
  then show ?case by auto
next
  case (Cons x xs)
  show ?case
  proof
    assume "js_includes (x # xs) q"
    then consider "startsWith (x # xs) q" | "js_includes xs q" by auto
    then show "\<exists>pre suf. x # xs = pre @ q @ suf"
    proof cases
      case 1
      then obtain suf where "x # xs = q @ suf"
        by (auto simp: startsWith_prefix prefix_def)
      then have "x # xs = [] @ q @ suf" by simp
      then show ?thesis by blast
    next
      case 2
      then obtain pre suf where "xs = pre @ q @ suf" using Cons.IH by blast
      then have "x # xs = (x # pre) @ q @ suf" by simp
      then show ?thesis by blast
    qed
  next
    assume "\<exists>pre suf. x # xs = pre @ q @ suf"
    then obtain pre suf where e: "x # xs = pre @ q @ suf" by blast
    show "js_includes (x # xs) q"
    proof (cases pre)
      case Nil
      with e have "prefix q (x # xs)" by (simp add: prefix_def)
      then show ?thesis by (simp add: startsWith_prefix del: startsWith.simps)
    next
      case (Cons p ps)
      with e have "xs = ps @ q @ suf" by simp
      then have "js_includes xs q" using Cons.IH by blast
      then show ?thesis by simp
    qed
  qed
qed

lemma map_eq_append_split:
  assumes "map f s = xs @ ys"
  shows "\<exists>a b. s = a @ b \<and> map f a = xs \<and> map f b = ys"
proof (intro exI conjI)
  show "s = take (length xs) s @ drop (length xs) s" by simp
  have "map f (take (length xs) s) = take (length xs) (map f s)" by (simp add: take_map)
  then show "map f (take (length xs) s) = xs" by (simp add: assms)
  have "map f (drop (length xs) s) = drop (length xs) (map f s)" by (simp add: drop_map)
  then show "map f (drop (length xs) s) = ys" by (simp add: assms)
qed

lemma includes_lowered_iff:
  "js_includes (toLowerCase caseMap s) (toLowerCase caseMap q) \<longleftrightarrow> containsLowered caseMap s q"
  by (simp add: js_includes_iff containsLowered_def)

lemma containsLowered_latin1:
  assumes "isLatin1 s" and "isLatin1 q"
  shows "containsLowered caseMap s q \<longleftrightarrow> containsIgnoringCase s q"
proof
  assume "containsLowered caseMap s q"
  then obtain pre suf where "map toLowerUnit s = pre @ (map toLowerUnit q @ suf)"
    using assms by (auto simp: containsLowered_def toLowerCase_latin1)
  then obtain a bc where s1: "s = a @ bc" and "map toLowerUnit bc = map toLowerUnit q @ suf"
    using map_eq_append_split by blast
  then obtain b c where s2: "bc = b @ c" and bq: "map toLowerUnit b = map toLowerUnit q"
    using map_eq_append_split by blast
  from bq have "list_all2 sameLetter b q" by (simp add: sameLetter_lowered)
  with s1 s2 show "containsIgnoringCase s q" unfolding containsIgnoringCase_def by blast
next
  assume "containsIgnoringCase s q"
  then obtain a b c where s: "s = a @ b @ c" and "list_all2 sameLetter b q"
    unfolding containsIgnoringCase_def by blast
  then have "map toLowerUnit b = map toLowerUnit q" by (simp add: sameLetter_lowered)
  with s have "map toLowerUnit s = map toLowerUnit a @ map toLowerUnit q @ map toLowerUnit c"
    by simp
  then show "containsLowered caseMap s q"
    using assms unfolding containsLowered_def toLowerCase_latin1[OF assms(1)]
      toLowerCase_latin1[OF assms(2)] by blast
qed

lemma includes_empty: "js_includes s []"
  by (cases s) auto

lemma template_matchesSearch_iff:
  "template_matchesSearch caseMap q t \<longleftrightarrow> templateMatches caseMap q t"
  by (simp add: template_matchesSearch_def templateMatches_def includes_lowered_iff)

lemma report_matchesSearch_iff:
  "report_matchesSearch caseMap q r \<longleftrightarrow> reportMatches caseMap q r"
  by (simp add: report_matchesSearch_def reportMatches_def includes_lowered_iff)

lemma templateMatches_latin1:
  assumes "isLatin1 q" and "isLatin1 (template_name t)" and "isLatin1 (template_description t)"
  shows "templateMatches caseMap q t \<longleftrightarrow> templateContains q t"
  using assms by (simp add: templateMatches_def templateContains_def containsLowered_latin1)

lemma reportMatches_latin1:
  assumes "isLatin1 q" and "isLatin1 (report_title r)"
  shows "reportMatches caseMap q r \<longleftrightarrow> reportContains q r"
  using assms by (simp add: reportMatches_def reportContains_def containsLowered_latin1)

lemma subseq_filter_conj: "subseq (filter (\<lambda>x. P x \<and> Q x) xs) (filter P xs)"
proof -
  have e: "filter (\<lambda>x. P x \<and> Q x) xs = filter Q (filter P xs)"
    by (simp add: conj_commute)
  show ?thesis unfolding e by (rule subseq_filter_left)
qed

section \<open>Filtering of templates and reports\<close>

text \<open>
  C10. Filtering keeps the order of the fixture: for every query and every category or
  status selection the filtered list is a subsequence of the fixture list. With the empty
  query, no category selected and the status filter \<open>all\<close>, the filtered list is
  the whole fixture list. Both hold whatever the case mapping of the engine is.
\<close>

theorem filter_keeps_order_and_empty_query_is_identity:
  "subseq (filteredTemplates caseMap mockTemplates searchQuery selectedCategory) mockTemplates
   \<and> subseq (filteredReports caseMap mockReports searchQuery statusFilter) mockReports
   \<and> filteredTemplates caseMap mockTemplates [] None = mockTemplates
   \<and> filteredReports caseMap mockReports [] all = mockReports"
  by (simp add: filteredTemplates_def filteredReports_def template_matchesSearch_def
      report_matchesSearch_def matchesCategory_def matchesStatus_def truthy_def
      toLowerCase_empty includes_empty)

theorem filter_keeps_order_witness:
  "filteredTemplates greekCaseMap demo_templates (utf16 ''report'') None
     = [demo_templates ! 0, demo_templates ! 1]
   \<and> subseq [demo_templates ! 0, demo_templates ! 1] demo_templates
   \<and> filteredReports greekCaseMap demo_reports (utf16 ''report'') (only draft)
     = [demo_reports ! 1]
   \<and> subseq [demo_reports ! 1] demo_reports
   \<and> filteredTemplates greekCaseMap demo_templates [] None = demo_templates
   \<and> filteredReports greekCaseMap demo_reports [] all = demo_reports"
proof -
  have a: "filteredTemplates greekCaseMap demo_templates (utf16 ''report'') None
      = [demo_templates ! 0, demo_templates ! 1]"
    by code_simp
  have b: "filteredReports greekCaseMap demo_reports (utf16 ''report'') (only draft)
      = [demo_reports ! 1]"
    by code_simp
  show ?thesis
    using filter_keeps_order_and_empty_query_is_identity
      [where caseMap = greekCaseMap and mockTemplates = demo_templates
         and searchQuery = "utf16 ''report''"
         and selectedCategory = None and mockReports = demo_reports
         and statusFilter = "only draft"]
    by (simp only: a b)
qed

text \<open>
  C1, as stated, fails in two ways. With a category (or a status) selected, a record that
  contains the query is left out: the first example template contains the query
  ''report'' in its name, yet it is not in the list filtered with the category ''Sales''
  selected, because the filter also requires the category to match. And a record can
  contain the query verbatim without the lower-cased record containing the lower-cased
  query: the report whose title is the Greek word in capitals contains the capital sigma,
  but lower-casing turns the sigma at the end of the title into the final sigma and the
  query into the small sigma, so with the status filter \<open>all\<close> the report is not
  in the list.
\<close>

theorem search_alone_counterexample:
  "templateContains (utf16 ''report'') (demo_templates ! 0)
   \<and> demo_templates ! 0 \<in> set demo_templates
   \<and> demo_templates ! 0
       \<notin> set (filteredTemplates greekCaseMap demo_templates (utf16 ''report'')
                (Some (utf16 ''Sales'')))
   \<and> reportContains greek_query (greek_reports ! 0)
   \<and> greek_reports ! 0 \<in> set greek_reports
   \<and> greek_reports ! 0 \<notin> set (filteredReports greekCaseMap greek_reports greek_query all)"
proof -
  have "template_matchesSearch greekCaseMap (utf16 ''report'') (demo_templates ! 0)"
    by code_simp
  then have "templateMatches greekCaseMap (utf16 ''report'') (demo_templates ! 0)"
    by (simp only: template_matchesSearch_iff)
  moreover have "isLatin1 (utf16 ''report'')" by code_simp
  moreover have "isLatin1 (template_name (demo_templates ! 0))" by code_simp
  moreover have "isLatin1 (template_description (demo_templates ! 0))" by code_simp
  ultimately have 1: "templateContains (utf16 ''report'') (demo_templates ! 0)"
    by (simp only: templateMatches_latin1)
  have 2: "demo_templates ! 0 \<in> set demo_templates" by code_simp
  have 3: "demo_templates ! 0
       \<notin> set (filteredTemplates greekCaseMap demo_templates (utf16 ''report'')
                (Some (utf16 ''Sales'')))"
    by code_simp
  have "report_title (greek_reports ! 0) = [0x39F, 0x394, 0x39F] @ [0x3A3] @ []"
    by (simp add: greek_reports_def greek_title_def)
  moreover have "list_all2 sameLetter [0x3A3] greek_query"
    by (simp add: greek_query_def sameLetter_def)
  ultimately have 4: "reportContains greek_query (greek_reports ! 0)"
    unfolding reportContains_def containsIgnoringCase_def by blast
  have 5: "greek_reports ! 0 \<in> set greek_reports" by code_simp
  have 6: "greek_reports ! 0 \<notin> set (filteredReports greekCaseMap greek_reports greek_query all)"
    by code_simp
  from 1 2 3 4 5 6 show ?thesis by blast
qed

text \<open>
  C1, amended. For every search query, every selection and every case mapping of the
  engine, the filtered list is a subsequence, in the order of the fixture, of the records
  whose lower-cased text (the name or the description of a template, the title of a
  report) has the lower-cased query as a contiguous part: every returned record matches
  in this sense. With "All Categories" or the status filter \<open>all\<close> the list is
  exactly these records, without ranking or truncation; with a category of a non-empty
  name or a status selected, exactly those of them that have this category or status.
  When the query and the text are of Latin-1 characters, to match in this sense is to
  contain the query as a case-insensitive substring.
\<close>

theorem search_exact_within_selection:
  "subseq (filteredTemplates caseMap mockTemplates searchQuery selectedCategory)
     (filter (templateMatches caseMap searchQuery) mockTemplates)
   \<and> subseq (filteredReports caseMap mockReports searchQuery statusFilter)
     (filter (reportMatches caseMap searchQuery) mockReports)
   \<and> filteredTemplates caseMap mockTemplates searchQuery None
     = filter (templateMatches caseMap searchQuery) mockTemplates
   \<and> filteredReports caseMap mockReports searchQuery all
     = filter (reportMatches caseMap searchQuery) mockReports
   \<and> (c \<noteq> [] \<longrightarrow> filteredTemplates caseMap mockTemplates searchQuery (Some c)
     = filter (\<lambda>t. templateMatches caseMap searchQuery t \<and> template_category t = c)
         mockTemplates)
   \<and> filteredReports caseMap mockReports searchQuery (only st)
     = filter (\<lambda>r. reportMatches caseMap searchQuery r \<and> report_status r = st) mockReports
   \<and> (isLatin1 searchQuery \<and> isLatin1 (template_name t) \<and> isLatin1 (template_description t)
        \<longrightarrow> (templateMatches caseMap searchQuery t \<longleftrightarrow> templateContains searchQuery t))
   \<and> (isLatin1 searchQuery \<and> isLatin1 (report_title r)
        \<longrightarrow> (reportMatches caseMap searchQuery r \<longleftrightarrow> reportContains searchQuery r))"
proof -
  have t: "template_matchesSearch caseMap searchQuery = templateMatches caseMap searchQuery"
    by (simp add: fun_eq_iff template_matchesSearch_iff)
  have r: "report_matchesSearch caseMap searchQuery = reportMatches caseMap searchQuery"
    by (simp add: fun_eq_iff report_matchesSearch_iff)
  have 1: "subseq (filteredTemplates caseMap mockTemplates searchQuery selectedCategory)
     (filter (templateMatches caseMap searchQuery) mockTemplates)"
    unfolding filteredTemplates_def t by (rule subseq_filter_conj)
  have 2: "subseq (filteredReports caseMap mockReports searchQuery statusFilter)
     (filter (reportMatches caseMap searchQuery) mockReports)"
    unfolding filteredReports_def r by (rule subseq_filter_conj)
  have 3: "filteredTemplates caseMap mockTemplates searchQuery None
     = filter (templateMatches caseMap searchQuery) mockTemplates"
    by (simp add: filteredTemplates_def t matchesCategory_def truthy_def)
  have 4: "filteredReports caseMap mockReports searchQuery all
     = filter (reportMatches caseMap searchQuery) mockReports"
    by (simp add: filteredReports_def r matchesStatus_def)
  have 5: "c \<noteq> [] \<longrightarrow> filteredTemplates caseMap mockTemplates searchQuery (Some c)
     = filter (\<lambda>t. templateMatches caseMap searchQuery t \<and> template_category t = c)
         mockTemplates"
    by (simp add: filteredTemplates_def t matchesCategory_def truthy_def)
  have 6: "filteredReports caseMap mockReports searchQuery (only st)
     = filter (\<lambda>r. reportMatches caseMap searchQuery r \<and> report_status r = st) mockReports"
    by (simp add: filteredReports_def r matchesStatus_def)
  have 7: "isLatin1 searchQuery \<and> isLatin1 (template_name t) \<and> isLatin1 (template_description t)
        \<longrightarrow> (templateMatches caseMap searchQuery t \<longleftrightarrow> templateContains searchQuery t)"
    using templateMatches_latin1 by blast
  have 8: "isLatin1 searchQuery \<and> isLatin1 (report_title r)
        \<longrightarrow> (reportMatches caseMap searchQuery r \<longleftrightarrow> reportContains searchQuery r)"
    using reportMatches_latin1 by blast
  from 1 2 3 4 5 6 7 8 show ?thesis by blast
qed

theorem search_exact_within_selection_witness:
  "filteredTemplates greekCaseMap demo_templates (utf16 ''report'') None
     = [demo_templates ! 0, demo_templates ! 1]
   \<and> filter (templateMatches greekCaseMap (utf16 ''report'')) demo_templates
     = [demo_templates ! 0, demo_templates ! 1]
   \<and> utf16 ''Sales'' \<noteq> []
   \<and> filteredTemplates greekCaseMap demo_templates (utf16 ''report'') (Some (utf16 ''Sales''))
     = [demo_templates ! 1]
   \<and> filter (\<lambda>t. templateMatches greekCaseMap (utf16 ''report'') t
                \<and> template_category t = utf16 ''Sales'') demo_templates
     = [demo_templates ! 1]
   \<and> isLatin1 (utf16 ''report'') \<and> isLatin1 (template_name (demo_templates ! 1))
   \<and> isLatin1 (template_description (demo_templates ! 1))
   \<and> templateMatches greekCaseMap (utf16 ''report'') (demo_templates ! 1)
   \<and> templateContains (utf16 ''report'') (demo_templates ! 1)
   \<and> filteredReports greekCaseMap greek_reports greek_query all = []
   \<and> filter (reportMatches greekCaseMap greek_query) greek_reports = []
   \<and> filter (\<lambda>r. reportMatches greekCaseMap greek_query r \<and> report_status r = draft)
        greek_reports = []"
proof -
  have a: "filteredTemplates greekCaseMap demo_templates (utf16 ''report'') None
      = [demo_templates ! 0, demo_templates ! 1]"
    by code_simp
  have b: "filteredTemplates greekCaseMap demo_templates (utf16 ''report'')
      (Some (utf16 ''Sales'')) = [demo_templates ! 1]"
    by code_simp
  have c: "filteredReports greekCaseMap greek_reports greek_query all = []"
    by code_simp
  have d: "filteredReports greekCaseMap greek_reports greek_query (only draft) = []"
    by code_simp
  have e: "utf16 ''Sales'' \<noteq> []" by code_simp
  have l: "isLatin1 (utf16 ''report'')" "isLatin1 (template_name (demo_templates ! 1))"
    "isLatin1 (template_description (demo_templates ! 1))"
    by code_simp+
  have m: "template_matchesSearch greekCaseMap (utf16 ''report'') (demo_templates ! 1)"
    by code_simp
  note t = search_exact_within_selection
      [where caseMap = greekCaseMap and mockTemplates = demo_templates
         and searchQuery = "utf16 ''report''" and c = "utf16 ''Sales''"
         and t = "demo_templates ! 1"]
  note g = search_exact_within_selection
      [where caseMap = greekCaseMap and mockReports = greek_reports
         and searchQuery = greek_query and st = draft]
  from t a have 1: "filter (templateMatches greekCaseMap (utf16 ''report'')) demo_templates
     = [demo_templates ! 0, demo_templates ! 1]" by simp
  from t b e have 2: "filter (\<lambda>t. templateMatches greekCaseMap (utf16 ''report'') t
                \<and> template_category t = utf16 ''Sales'') demo_templates
     = [demo_templates ! 1]" by simp
  from m have 3: "templateMatches greekCaseMap (utf16 ''report'') (demo_templates ! 1)"
    by (simp only: template_matchesSearch_iff)
  from t l 3 have 4: "templateContains (utf16 ''report'') (demo_templates ! 1)" by blast
  from g c have 5: "filter (reportMatches greekCaseMap greek_query) greek_reports = []"
    by simp
  from g d have 6: "filter (\<lambda>r. reportMatches greekCaseMap greek_query r
      \<and> report_status r = draft) greek_reports = []" by simp
  from a 1 e b 2 l 3 4 c 5 6 show ?thesis by blast
qed

text \<open>
  The category filter: with a category of non-empty name selected the list is the one
  for "All Categories" restricted to that category, and "All Categories" leaves only the
  search.
\<close>

lemma category_filter_restricts:
  "c \<noteq> [] \<Longrightarrow>
     filteredTemplates caseMap mockTemplates searchQuery (Some c)
       = filter (\<lambda>t. template_category t = c)
           (filteredTemplates caseMap mockTemplates searchQuery None)"
  by (simp add: filteredTemplates_def matchesCategory_def truthy_def conj_commute)

lemma all_categories_is_identity:
  "filteredTemplates caseMap mockTemplates searchQuery None
     = filter (template_matchesSearch caseMap searchQuery) mockTemplates"
  by (simp add: filteredTemplates_def matchesCategory_def truthy_def)

text \<open>
  C5 says that selecting a category restricts the list to the templates of that category.
  For the category whose name is the empty string the code does not: selecting it gives
  the same list as "All Categories", for every fixture and query, because
  \<^verbatim>\<open>!selectedCategory\<close> is true for the empty string; yet the buttons, which
  compare with \<^verbatim>\<open>===\<close>, show the empty category as the active one and
  "All Categories" as not active.
\<close>

theorem empty_category_is_not_restricted:
  "filteredTemplates caseMap mockTemplates searchQuery (Some [])
     = filteredTemplates caseMap mockTemplates searchQuery None
   \<and> categoryActive (Some []) [] \<and> \<not> allCategoriesActive (Some [])"
  by (simp add: filteredTemplates_def matchesCategory_def truthy_def categoryActive_def
      allCategoriesActive_def)

text \<open>
  In the example fixture the empty string is one of the categories offered, and with it
  selected the list still holds the template of category ''Sales''.
\<close>

theorem empty_category_is_not_restricted_witness:
  "categories uncategorised_templates = [[], utf16 ''Sales'']
   \<and> categoryActive (Some []) [] \<and> \<not> allCategoriesActive (Some [])
   \<and> filteredTemplates greekCaseMap uncategorised_templates [] (Some [])
       = uncategorised_templates
   \<and> template_category (uncategorised_templates ! 1) = utf16 ''Sales''"
proof -
  have a: "categories uncategorised_templates = [[], utf16 ''Sales'']" by code_simp
  have c: "filteredTemplates greekCaseMap uncategorised_templates [] None
      = uncategorised_templates"
    by code_simp
  have d: "template_category (uncategorised_templates ! 1) = utf16 ''Sales''" by code_simp
  from a c d empty_category_is_not_restricted[of greekCaseMap uncategorised_templates "[]"]
  show ?thesis by simp
qed

section \<open>Facts about timers and the page state machines\<close>

lemma nextTimer_None_iff: "nextTimer q = None \<longleftrightarrow> q = []"
  by (induction q) (auto split: option.splits)

lemma nextTimer_mem: "nextTimer q = Some t \<Longrightarrow> t \<in> set q"
  by (induction q arbitrary: t) (auto split: option.splits if_splits)

lemma nextTimer_single: "nextTimer [t] = Some t"
  by simp

lemma short_list: "length q \<le> Suc 0 \<Longrightarrow> q = [] \<or> (\<exists>t. q = [t])"
  by (cases q) auto

lemma trim_empty_iff: "trim p = [] \<longleftrightarrow> whitespaceOnly p"
proof -
  have "trim p = [] \<longleftrightarrow> (\<forall>x\<in>set (dropWhile isWhiteSpace p). isWhiteSpace x)"
    by (simp add: trim_def dropWhile_eq_Nil_conv)
  also have "\<dots> \<longleftrightarrow> dropWhile isWhiteSpace p = []"
  proof
    assume a: "\<forall>x\<in>set (dropWhile isWhiteSpace p). isWhiteSpace x"
    show "dropWhile isWhiteSpace p = []"
    proof (rule ccontr)
      assume n: "dropWhile isWhiteSpace p \<noteq> []"
      then have "\<not> isWhiteSpace (hd (dropWhile isWhiteSpace p))" by (rule hd_dropWhile)
      moreover from n have "hd (dropWhile isWhiteSpace p) \<in> set (dropWhile isWhiteSpace p)"
        by simp
      ultimately show False using a by blast
    qed
  next
    assume "dropWhile isWhiteSpace p = []"
    then show "\<forall>x\<in>set (dropWhile isWhiteSpace p). isWhiteSpace x"
      by (simp del: dropWhile_eq_Nil_conv)
  qed
  also have "\<dots> \<longleftrightarrow> whitespaceOnly p"
    by (simp add: dropWhile_eq_Nil_conv whitespaceOnly_def list_all_iff)
  finally show ?thesis .
qed

lemma create_inv_init: "create_inv create_init"
  by (simp add: create_inv_def create_init_def)

lemma create_fire_empty: "create_timers s = [] \<Longrightarrow> create_fire s = s"
  by (simp add: create_fire_def)

lemma create_fire_single:
  "create_timers s = [(due, k)] \<Longrightarrow>
   create_fire s = create_resume k (s\<lparr>create_clock := max (create_clock s) due, create_timers := []\<rparr>)"
  by (simp add: create_fire_def)

lemma create_inv_step: "create_inv s \<Longrightarrow> create_inv (create_step e s)"
proof (cases e)
  case (ChangePrompt p)
  assume "create_inv s" with ChangePrompt show ?thesis by (simp add: create_inv_def)
next
  case (ClickSuggestion i)
  assume "create_inv s" with ClickSuggestion show ?thesis
    by (simp add: create_inv_def handleSuggestionClick_def)
next
  case ClickGenerate
  assume "create_inv s" with ClickGenerate show ?thesis
    by (auto simp: create_inv_def generate_disabled_def handleGenerate_def setTimeout_def)
next
  case CreateTimerFires
  assume i: "create_inv s"
  then consider "create_timers s = []" | due k where "create_timers s = [(due, k)]"
    using short_list[of "create_timers s"] by (auto simp: create_inv_def)
  then show ?thesis
  proof cases
    case 1 with i CreateTimerFires show ?thesis by (simp add: create_fire_empty)
  next
    case 2 with CreateTimerFires show ?thesis
      by (cases k) (simp add: create_fire_single create_inv_def)
  qed
next
  case (CreateWait d)
  assume "create_inv s" with CreateWait show ?thesis by (simp add: create_inv_def)
qed

lemma create_run_snoc: "create_run (es @ [e]) s = create_step e (create_run es s)"
  by (simp add: create_run_def)

lemma create_inv_run: "create_inv (create_run es create_init)"
proof (induction es rule: rev_induct)
  case Nil show ?case by (simp add: create_run_def create_inv_init)
next
  case (snoc e es) then show ?case by (simp add: create_run_snoc create_inv_step)
qed

lemma create_click_enabled:
  assumes "create_inv s" and "\<not> generate_disabled s"
  shows "create_step ClickGenerate s =
           s\<lparr>isGenerating := True,
             create_timers := [(create_clock s + 2000, ResumeGenerate (prompt s))]\<rparr>"
proof -
  from assms have "create_timers s = []" by (simp add: create_inv_def generate_disabled_def)
  with assms(2) show ?thesis
    by (simp add: handleGenerate_def generate_disabled_def setTimeout_def)
qed

lemma create_click_pending:
  assumes "create_inv s" and "\<not> generate_disabled s"
  shows "create_pending s (create_step ClickGenerate s)"
  unfolding create_click_enabled[OF assms] by (simp add: create_pending_def)

lemma create_click_disabled: "generate_disabled s \<Longrightarrow> create_step ClickGenerate s = s"
  by simp

lemma create_pending_step:
  assumes "create_pending s0 s" and "e \<noteq> CreateTimerFires"
  shows "create_pending s0 (create_step e s)"
  using assms
  by (cases e)
     (auto simp: create_pending_def handleSuggestionClick_def generate_disabled_def
        mayElapse_def)

lemma create_pending_run:
  assumes "create_pending s0 s" and "CreateTimerFires \<notin> set ws"
  shows "create_pending s0 (create_run ws s)"
  using assms(2)
proof (induction ws rule: rev_induct)
  case Nil
  show ?case using assms(1) by (simp add: create_run_def)
next
  case (snoc e ws)
  then have "create_pending s0 (create_run ws s)" and "e \<noteq> CreateTimerFires" by auto
  then show ?case unfolding create_run_snoc by (rule create_pending_step)
qed

lemma create_pending_fire:
  assumes "create_pending s0 s"
  shows "create_step CreateTimerFires s =
           s\<lparr>isGenerating := False, create_clock := create_clock s0 + 2000,
             create_timers := [],
             navigated := navigated s0 @ [(''/reports/preview'', prompt s0)]\<rparr>"
  using assms by (simp add: create_pending_def create_fire_single max_def)

lemma create_timers_kept:
  "e \<noteq> CreateTimerFires \<Longrightarrow> prefix (create_timers s) (create_timers (create_step e s))"
  by (cases e) (auto simp: handleSuggestionClick_def handleGenerate_def setTimeout_def)

lemma create_pending_kept:
  "isGenerating s \<Longrightarrow> e \<noteq> CreateTimerFires \<Longrightarrow> isGenerating (create_step e s)"
  by (cases e) (auto simp: handleSuggestionClick_def generate_disabled_def)

lemma preview_fire_empty: "preview_timers s = [] \<Longrightarrow> preview_fire s = s"
  by (simp add: preview_fire_def)

lemma preview_fire_single:
  "preview_timers s = [(due, k)] \<Longrightarrow>
   preview_fire s =
     preview_resume k (s\<lparr>preview_clock := max (preview_clock s) due, preview_timers := []\<rparr>)"
  by (simp add: preview_fire_def)

lemma preview_inv_init: "preview_inv preview_init"
  by (simp add: preview_inv_def preview_init_def)

lemma preview_inv_step: "preview_inv s \<Longrightarrow> preview_inv (preview_step e s)"
proof (cases e)
  case ClickPublish
  assume "preview_inv s" with ClickPublish show ?thesis
    by (auto simp: preview_inv_def publish_disabled_def handlePublish_def setTimeout_def)
next
  case PreviewTimerFires
  assume i: "preview_inv s"
  then consider "preview_timers s = []" | due k where "preview_timers s = [(due, k)]"
    using short_list[of "preview_timers s"] by (auto simp: preview_inv_def)
  then show ?thesis
  proof cases
    case 1 with i PreviewTimerFires show ?thesis by (simp add: preview_fire_empty)
  next
    case 2 with PreviewTimerFires show ?thesis
      by (cases k) (simp add: preview_fire_single preview_inv_def)
  qed
next
  case (PreviewWait d)
  assume "preview_inv s" with PreviewWait show ?thesis by (simp add: preview_inv_def)
qed

lemma preview_run_snoc: "preview_run (es @ [e]) s = preview_step e (preview_run es s)"
  by (simp add: preview_run_def)

lemma preview_inv_run: "preview_inv (preview_run es preview_init)"
proof (induction es rule: rev_induct)
  case Nil show ?case by (simp add: preview_run_def preview_inv_init)
next
  case (snoc e es) then show ?case by (simp add: preview_run_snoc preview_inv_step)
qed

lemma preview_click_enabled:
  assumes "preview_inv s" and "\<not> publish_disabled s"
  shows "preview_step ClickPublish s =
           s\<lparr>isPublishing := True,
             preview_timers := [(preview_clock s + 1500, ResumePublish)]\<rparr>"
proof -
  from assms have "preview_timers s = []" by (simp add: preview_inv_def publish_disabled_def)
  with assms(2) show ?thesis
    by (simp add: handlePublish_def publish_disabled_def setTimeout_def)
qed

lemma preview_click_pending:
  assumes "preview_inv s" and "\<not> publish_disabled s"
  shows "preview_pending s (preview_step ClickPublish s)"
  using assms(2) unfolding preview_click_enabled[OF assms]
  by (simp add: preview_pending_def publish_disabled_def)

lemma preview_pending_step:
  assumes "preview_pending s0 s" and "e \<noteq> PreviewTimerFires"
  shows "preview_pending s0 (preview_step e s)"
  using assms
  by (cases e) (auto simp: preview_pending_def publish_disabled_def mayElapse_def)

lemma preview_pending_run:
  assumes "preview_pending s0 s" and "PreviewTimerFires \<notin> set ws"
  shows "preview_pending s0 (preview_run ws s)"
  using assms(2)
proof (induction ws rule: rev_induct)
  case Nil
  show ?case using assms(1) by (simp add: preview_run_def)
next
  case (snoc e ws)
  then have "preview_pending s0 (preview_run ws s)" and "e \<noteq> PreviewTimerFires" by auto
  then show ?case unfolding preview_run_snoc by (rule preview_pending_step)
qed

lemma preview_pending_fire:
  assumes "preview_pending s0 s"
  shows "preview_step PreviewTimerFires s =
           s\<lparr>isPublishing := False, isPublished := True,
             preview_clock := preview_clock s0 + 1500, preview_timers := []\<rparr>"
  using assms by (simp add: preview_pending_def preview_fire_single max_def)

lemma preview_timers_kept:
  "e \<noteq> PreviewTimerFires \<Longrightarrow> prefix (preview_timers s) (preview_timers (preview_step e s))"
  by (cases e) (auto simp: handlePublish_def setTimeout_def)

lemma preview_pending_kept:
  "isPublishing s \<Longrightarrow> e \<noteq> PreviewTimerFires \<Longrightarrow> isPublishing (preview_step e s)"
  by (cases e) (auto simp: publish_disabled_def)

lemma preview_published_kept: "isPublished s \<Longrightarrow> isPublished (preview_step e s)"
proof (cases e)
  case ClickPublish
  assume "isPublished s" with ClickPublish show ?thesis by (simp add: publish_disabled_def)
next
  case PreviewTimerFires
  assume a: "isPublished s"
  show ?thesis
  proof (cases "nextTimer (preview_timers s)")
    case None
    with a PreviewTimerFires show ?thesis by (simp add: preview_fire_def)
  next
    case (Some t)
    obtain due k where "t = (due, k)" by (cases t)
    with Some PreviewTimerFires show ?thesis by (cases k) (simp add: preview_fire_def)
  qed
next
  case (PreviewWait d)
  assume "isPublished s" with PreviewWait show ?thesis by simp
qed

lemma preview_done_step: "preview_done s \<Longrightarrow> preview_done (preview_step e s)"
  by (cases e) (auto simp: preview_done_def publish_disabled_def preview_fire_empty)

lemma preview_done_run: "preview_done s \<Longrightarrow> preview_done (preview_run vs s)"
proof (induction vs rule: rev_induct)
  case Nil then show ?case by (simp add: preview_run_def)
next
  case (snoc e vs) then show ?case by (simp add: preview_run_snoc preview_done_step)
qed

lemma nextTimer_Some: "q \<noteq> [] \<Longrightarrow> \<exists>t. nextTimer q = Some t \<and> t \<in> set q"
  using nextTimer_None_iff nextTimer_mem by (cases "nextTimer q") auto

lemma create_fire_step:
  assumes "create_timers s \<noteq> []"
  shows "\<exists>due p. (due, ResumeGenerate p) \<in> set (create_timers s)
           \<and> create_timers (create_fire s) = remove1 (due, ResumeGenerate p) (create_timers s)
           \<and> \<not> isGenerating (create_fire s)
           \<and> navigated (create_fire s) = navigated s @ [(''/reports/preview'', p)]"
proof -
  from assms obtain t where t: "nextTimer (create_timers s) = Some t" "t \<in> set (create_timers s)"
    using nextTimer_Some by blast
  obtain due k where dk: "t = (due, k)" by (cases t)
  obtain p where k: "k = ResumeGenerate p" by (cases k)
  from t dk k show ?thesis by (auto simp: create_fire_def)
qed

lemma create_drain:
  "length (create_timers s) = n \<Longrightarrow>
     create_timers ((create_fire ^^ n) s) = []
     \<and> (n \<noteq> 0 \<longrightarrow> \<not> isGenerating ((create_fire ^^ n) s))
     \<and> set (navigated s) \<subseteq> set (navigated ((create_fire ^^ n) s))
     \<and> (\<forall>due p. (due, ResumeGenerate p) \<in> set (create_timers s) \<longrightarrow>
           (''/reports/preview'', p) \<in> set (navigated ((create_fire ^^ n) s)))"
proof (induction n arbitrary: s)
  case 0
  then show ?case by simp
next
  case (Suc n)
  then have ne: "create_timers s \<noteq> []" by auto
  from create_fire_step[OF ne] obtain due p where
    m: "(due, ResumeGenerate p) \<in> set (create_timers s)"
    and r: "create_timers (create_fire s) = remove1 (due, ResumeGenerate p) (create_timers s)"
    and g: "\<not> isGenerating (create_fire s)"
    and v: "navigated (create_fire s) = navigated s @ [(''/reports/preview'', p)]"
    by blast
  from m r Suc.prems have len: "length (create_timers (create_fire s)) = n"
    by (simp add: length_remove1)
  note ih = Suc.IH[OF len]
  have sw: "(create_fire ^^ Suc n) s = (create_fire ^^ n) (create_fire s)"
    by (simp add: funpow_swap1)
  have a: "create_timers ((create_fire ^^ Suc n) s) = []" unfolding sw using ih by blast
  have b: "\<not> isGenerating ((create_fire ^^ Suc n) s)"
  proof (cases "n = 0")
    case True then show ?thesis using g by simp
  next
    case False then show ?thesis unfolding sw using ih by blast
  qed
  have sub: "set (navigated (create_fire s)) \<subseteq> set (navigated ((create_fire ^^ Suc n) s))"
    unfolding sw using ih by blast
  have c: "set (navigated s) \<subseteq> set (navigated ((create_fire ^^ Suc n) s))"
    using sub v by auto
  have d: "\<forall>due' p'. (due', ResumeGenerate p') \<in> set (create_timers s) \<longrightarrow>
           (''/reports/preview'', p') \<in> set (navigated ((create_fire ^^ Suc n) s))"
  proof (intro allI impI)
    fix due' p'
    assume x: "(due', ResumeGenerate p') \<in> set (create_timers s)"
    show "(''/reports/preview'', p') \<in> set (navigated ((create_fire ^^ Suc n) s))"
    proof (cases "(due', ResumeGenerate p') = (due, ResumeGenerate p)")
      case True
      then have "(''/reports/preview'', p') \<in> set (navigated (create_fire s))" using v by simp
      then show ?thesis using sub by blast
    next
      case False
      with x r have "(due', ResumeGenerate p') \<in> set (create_timers (create_fire s))"
        by simp
      then show ?thesis unfolding sw using ih by blast
    qed
  qed
  from a b c d show ?case by blast
qed

lemma preview_fire_step:
  assumes "preview_timers s \<noteq> []"
  shows "length (preview_timers (preview_fire s)) = length (preview_timers s) - 1
           \<and> \<not> isPublishing (preview_fire s) \<and> isPublished (preview_fire s)"
proof -
  from assms obtain t where t: "nextTimer (preview_timers s) = Some t" "t \<in> set (preview_timers s)"
    using nextTimer_Some by blast
  obtain due k where dk: "t = (due, k)" by (cases t)
  from t dk show ?thesis by (cases k) (auto simp: preview_fire_def length_remove1)
qed

lemma preview_drain:
  "length (preview_timers s) = n \<Longrightarrow>
     preview_timers ((preview_fire ^^ n) s) = []
     \<and> (n \<noteq> 0 \<longrightarrow> \<not> isPublishing ((preview_fire ^^ n) s) \<and> isPublished ((preview_fire ^^ n) s))"
proof (induction n arbitrary: s)
  case 0
  then show ?case by simp
next
  case (Suc n)
  then have ne: "preview_timers s \<noteq> []" by auto
  note f = preview_fire_step[OF ne]
  from f Suc.prems have len: "length (preview_timers (preview_fire s)) = n" by simp
  note ih = Suc.IH[OF len]
  have sw: "(preview_fire ^^ Suc n) s = (preview_fire ^^ n) (preview_fire s)"
    by (simp add: funpow_swap1)
  show ?case
  proof (cases "n = 0")
    case True
    with f len show ?thesis by simp
  next
    case False
    then show ?thesis unfolding sw using ih by blast
  qed
qed

lemma settings_fire_ResumeSave:
  assumes "nextTimer (settings_timers s) = Some (due, ResumeSave)"
  shows "\<not> isSaving (settings_fire s) \<and> saved (settings_fire s)"
  using assms by (simp add: settings_fire_def)

lemma settings_fire_ClearSaved:
  assumes "nextTimer (settings_timers s) = Some (due, ClearSaved)"
  shows "settings_timers (settings_fire s) = remove1 (due, ClearSaved) (settings_timers s)"
  using assms by (simp add: settings_fire_def)

lemma settings_save_resolves:
  assumes "(due0, ResumeSave) \<in> set (settings_timers s)"
    and "length (filter (\<lambda>t. snd t = ClearSaved) (settings_timers s)) = c"
  shows "\<exists>n. 1 \<le> n \<and> n \<le> Suc c \<and> \<not> isSaving ((settings_fire ^^ n) s)
             \<and> saved ((settings_fire ^^ n) s)"
  using assms
proof (induction c arbitrary: s)
  case 0
  then have "settings_timers s \<noteq> []" by auto
  then obtain t where t: "nextTimer (settings_timers s) = Some t" "t \<in> set (settings_timers s)"
    using nextTimer_Some by blast
  obtain due k where dk: "t = (due, k)" by (cases t)
  have "k = ResumeSave"
  proof (cases k)
    case ClearSaved
    with t dk have "(due, ClearSaved) \<in> set (filter (\<lambda>t. snd t = ClearSaved) (settings_timers s))"
      by simp
    with "0.prems"(2) show ?thesis by simp
  qed simp
  with t dk have "\<not> isSaving (settings_fire s) \<and> saved (settings_fire s)"
    using settings_fire_ResumeSave by blast
  then have "1 \<le> (1::nat) \<and> (1::nat) \<le> Suc 0 \<and> \<not> isSaving ((settings_fire ^^ 1) s)
      \<and> saved ((settings_fire ^^ 1) s)" by simp
  then show ?case by blast
next
  case (Suc c)
  then have "settings_timers s \<noteq> []" by auto
  then obtain t where t: "nextTimer (settings_timers s) = Some t" "t \<in> set (settings_timers s)"
    using nextTimer_Some by blast
  obtain due k where dk: "t = (due, k)" by (cases t)
  show ?case
  proof (cases k)
    case ResumeSave
    with t dk have "\<not> isSaving (settings_fire s) \<and> saved (settings_fire s)"
      using settings_fire_ResumeSave by blast
    then have "1 \<le> (1::nat) \<and> (1::nat) \<le> Suc (Suc c) \<and> \<not> isSaving ((settings_fire ^^ 1) s)
      \<and> saved ((settings_fire ^^ 1) s)" by simp
    then show ?thesis by blast
  next
    case ClearSaved
    with t dk have r: "settings_timers (settings_fire s)
        = remove1 (due, ClearSaved) (settings_timers s)"
      using settings_fire_ClearSaved by blast
    have m: "(due0, ResumeSave) \<in> set (settings_timers (settings_fire s))"
      unfolding r using Suc.prems(1) by simp
    have "(due, ClearSaved) \<in> set (filter (\<lambda>t. snd t = ClearSaved) (settings_timers s))"
      using t dk ClearSaved by simp
    then have cnt: "length (filter (\<lambda>t. snd t = ClearSaved) (settings_timers (settings_fire s))) = c"
      unfolding r filter_remove1 using Suc.prems(2) by (simp add: length_remove1)
    from Suc.IH[OF m cnt] obtain n where
      n: "1 \<le> n" "n \<le> Suc c" "\<not> isSaving ((settings_fire ^^ n) (settings_fire s))"
         "saved ((settings_fire ^^ n) (settings_fire s))"
      by blast
    have sw: "(settings_fire ^^ Suc n) s = (settings_fire ^^ n) (settings_fire s)"
      by (simp add: funpow_swap1)
    from n have "1 \<le> Suc n \<and> Suc n \<le> Suc (Suc c) \<and> \<not> isSaving ((settings_fire ^^ Suc n) s)
        \<and> saved ((settings_fire ^^ Suc n) s)"
      unfolding sw by simp
    then show ?thesis by blast
  qed
qed

lemma handleSave_resolves:
  "\<exists>n. 1 \<le> n \<and> n \<le> length (settings_timers (handleSave t))
       \<and> \<not> isSaving ((settings_fire ^^ n) (handleSave t))
       \<and> saved ((settings_fire ^^ n) (handleSave t))"
proof -
  let ?q = "settings_timers (handleSave t)"
  have m: "(settings_clock t + 1000, ResumeSave) \<in> set ?q"
    by (simp add: handleSave_def setTimeout_def)
  then have "length (filter (\<lambda>t. snd t = ClearSaved) ?q) < length ?q"
    by (intro length_filter_less[where x = "(settings_clock t + 1000, ResumeSave)"]) simp_all
  with settings_save_resolves[OF m refl] show ?thesis
    by (meson Suc_leI le_trans)
qed

section \<open>Generate and publish\<close>

text \<open>
  C2. In every state reached from the initial one, a click on the Generate or the Publish
  button that the button dispatches (the button is enabled, so the action is not pending)
  sets the pending flag and registers exactly one timer; the firing of that timer clears
  the flag, leaves no timer and gives the result of the operation, once: the navigation
  to the preview with the prompt is recorded once more and nothing else of the page
  changes but the clock, or \<open>isPublished\<close> is set; a further firing changes nothing.
  While the flag is set the button is disabled and a click changes nothing. At most one
  timer is ever outstanding, the flag is set exactly while one is, and no event other
  than the firing removes a timer or clears the flag: an operation cannot be cancelled.
\<close>

theorem click_runs_one_operation:
  assumes "s = create_run es create_init" and "p = preview_run ps preview_init"
  shows
    "length (create_timers s) \<le> 1 \<and> (isGenerating s \<longleftrightarrow> create_timers s \<noteq> [])
     \<and> (isGenerating s \<longrightarrow> generate_disabled s \<and> create_step ClickGenerate s = s)
     \<and> (\<not> generate_disabled s \<longrightarrow>
          isGenerating (create_step ClickGenerate s)
          \<and> length (create_timers (create_step ClickGenerate s)) = 1
          \<and> \<not> isGenerating (create_step CreateTimerFires (create_step ClickGenerate s))
          \<and> create_timers (create_step CreateTimerFires (create_step ClickGenerate s)) = []
          \<and> create_step CreateTimerFires
               (create_step CreateTimerFires (create_step ClickGenerate s))
             = create_step CreateTimerFires (create_step ClickGenerate s)
          \<and> navigated (create_step CreateTimerFires (create_step ClickGenerate s))
             = navigated s @ [(''/reports/preview'', prompt s)]
          \<and> create_step CreateTimerFires (create_step ClickGenerate s)
             = s\<lparr>create_clock := create_clock s + 2000,
                 navigated := navigated s @ [(''/reports/preview'', prompt s)]\<rparr>)
     \<and> (e \<noteq> CreateTimerFires \<longrightarrow>
          prefix (create_timers s) (create_timers (create_step e s))
          \<and> (isGenerating s \<longrightarrow> isGenerating (create_step e s)))
     \<and> length (preview_timers p) \<le> 1 \<and> (isPublishing p \<longleftrightarrow> preview_timers p \<noteq> [])
     \<and> (isPublishing p \<longrightarrow> publish_disabled p \<and> preview_step ClickPublish p = p)
     \<and> (\<not> publish_disabled p \<longrightarrow>
          isPublishing (preview_step ClickPublish p)
          \<and> length (preview_timers (preview_step ClickPublish p)) = 1
          \<and> \<not> isPublishing (preview_step PreviewTimerFires (preview_step ClickPublish p))
          \<and> preview_timers (preview_step PreviewTimerFires (preview_step ClickPublish p)) = []
          \<and> preview_step PreviewTimerFires
               (preview_step PreviewTimerFires (preview_step ClickPublish p))
             = preview_step PreviewTimerFires (preview_step ClickPublish p)
          \<and> isPublished (preview_step PreviewTimerFires (preview_step ClickPublish p))
          \<and> preview_step PreviewTimerFires (preview_step ClickPublish p)
             = p\<lparr>isPublished := True, preview_clock := preview_clock p + 1500\<rparr>)
     \<and> (e' \<noteq> PreviewTimerFires \<longrightarrow>
          prefix (preview_timers p) (preview_timers (preview_step e' p))
          \<and> (isPublishing p \<longrightarrow> isPublishing (preview_step e' p)))"
proof -
  let ?click = "create_step ClickGenerate s"
  let ?fired = "create_step CreateTimerFires ?click"
  let ?pclick = "preview_step ClickPublish p"
  let ?pfired = "preview_step PreviewTimerFires ?pclick"
  have ci: "create_inv s" unfolding assms(1) by (rule create_inv_run)
  have pi: "preview_inv p" unfolding assms(2) by (rule preview_inv_run)
  have c1: "length (create_timers s) \<le> 1 \<and> (isGenerating s \<longleftrightarrow> create_timers s \<noteq> [])"
    using ci by (simp add: create_inv_def)
  have c2: "isGenerating s \<longrightarrow> generate_disabled s \<and> create_step ClickGenerate s = s"
    by (simp add: generate_disabled_def)
  have c3: "\<not> generate_disabled s \<longrightarrow>
          isGenerating ?click \<and> length (create_timers ?click) = 1
          \<and> \<not> isGenerating ?fired \<and> create_timers ?fired = []
          \<and> create_step CreateTimerFires ?fired = ?fired
          \<and> navigated ?fired = navigated s @ [(''/reports/preview'', prompt s)]
          \<and> ?fired = s\<lparr>create_clock := create_clock s + 2000,
                 navigated := navigated s @ [(''/reports/preview'', prompt s)]\<rparr>"
  proof
    assume en: "\<not> generate_disabled s"
    from ci en have idle: "\<not> isGenerating s" "create_timers s = []"
      by (simp_all add: create_inv_def generate_disabled_def)
    have click: "?click = s\<lparr>isGenerating := True,
        create_timers := [(create_clock s + 2000, ResumeGenerate (prompt s))]\<rparr>"
      using ci en by (rule create_click_enabled)
    have pend: "create_pending s ?click"
      using ci en by (rule create_click_pending)
    have fire: "?fired = ?click\<lparr>isGenerating := False,
             create_clock := create_clock s + 2000, create_timers := [],
             navigated := navigated s @ [(''/reports/preview'', prompt s)]\<rparr>"
      using pend by (rule create_pending_fire)
    have a: "isGenerating ?click" and b: "length (create_timers ?click) = 1"
      using pend by (simp_all add: create_pending_def)
    have c: "\<not> isGenerating ?fired" and d: "create_timers ?fired = []"
      and g: "navigated ?fired = navigated s @ [(''/reports/preview'', prompt s)]"
      unfolding fire by simp_all
    have "create_fire ?fired = ?fired" using d by (rule create_fire_empty)
    then have f: "create_step CreateTimerFires ?fired = ?fired" by simp
    have "?click\<lparr>isGenerating := False,
             create_clock := create_clock s + 2000, create_timers := [],
             navigated := navigated s @ [(''/reports/preview'', prompt s)]\<rparr>
          = s\<lparr>create_clock := create_clock s + 2000,
               navigated := navigated s @ [(''/reports/preview'', prompt s)]\<rparr>"
      unfolding click using idle by simp
    with fire have h: "?fired = s\<lparr>create_clock := create_clock s + 2000,
                 navigated := navigated s @ [(''/reports/preview'', prompt s)]\<rparr>"
      by (rule trans)
    from a b c d f g h show "isGenerating ?click \<and> length (create_timers ?click) = 1
          \<and> \<not> isGenerating ?fired \<and> create_timers ?fired = []
          \<and> create_step CreateTimerFires ?fired = ?fired
          \<and> navigated ?fired = navigated s @ [(''/reports/preview'', prompt s)]
          \<and> ?fired = s\<lparr>create_clock := create_clock s + 2000,
                 navigated := navigated s @ [(''/reports/preview'', prompt s)]\<rparr>"
      by blast
  qed
  have c4: "e \<noteq> CreateTimerFires \<longrightarrow>
          prefix (create_timers s) (create_timers (create_step e s))
          \<and> (isGenerating s \<longrightarrow> isGenerating (create_step e s))"
    using create_timers_kept create_pending_kept by blast
  have p1: "length (preview_timers p) \<le> 1 \<and> (isPublishing p \<longleftrightarrow> preview_timers p \<noteq> [])"
    using pi by (simp add: preview_inv_def)
  have p2: "isPublishing p \<longrightarrow> publish_disabled p \<and> preview_step ClickPublish p = p"
    by (simp add: publish_disabled_def)
  have p3: "\<not> publish_disabled p \<longrightarrow>
          isPublishing ?pclick \<and> length (preview_timers ?pclick) = 1
          \<and> \<not> isPublishing ?pfired \<and> preview_timers ?pfired = []
          \<and> preview_step PreviewTimerFires ?pfired = ?pfired
          \<and> isPublished ?pfired
          \<and> ?pfired = p\<lparr>isPublished := True, preview_clock := preview_clock p + 1500\<rparr>"
  proof
    assume en: "\<not> publish_disabled p"
    from pi en have idle: "\<not> isPublishing p" "preview_timers p = []"
      by (simp_all add: preview_inv_def publish_disabled_def)
    have click: "?pclick = p\<lparr>isPublishing := True,
        preview_timers := [(preview_clock p + 1500, ResumePublish)]\<rparr>"
      using pi en by (rule preview_click_enabled)
    have pend: "preview_pending p ?pclick"
      using pi en by (rule preview_click_pending)
    have fire: "?pfired = ?pclick\<lparr>isPublishing := False, isPublished := True,
             preview_clock := preview_clock p + 1500, preview_timers := []\<rparr>"
      using pend by (rule preview_pending_fire)
    have a: "isPublishing ?pclick" and b: "length (preview_timers ?pclick) = 1"
      using pend by (simp_all add: preview_pending_def)
    have c: "\<not> isPublishing ?pfired" and d: "preview_timers ?pfired = []"
      and g: "isPublished ?pfired"
      unfolding fire by simp_all
    have "preview_fire ?pfired = ?pfired" using d by (rule preview_fire_empty)
    then have f: "preview_step PreviewTimerFires ?pfired = ?pfired" by simp
    have "?pclick\<lparr>isPublishing := False, isPublished := True,
             preview_clock := preview_clock p + 1500, preview_timers := []\<rparr>
          = p\<lparr>isPublished := True, preview_clock := preview_clock p + 1500\<rparr>"
      unfolding click using idle by simp
    with fire have h: "?pfired = p\<lparr>isPublished := True,
        preview_clock := preview_clock p + 1500\<rparr>"
      by (rule trans)
    from a b c d f g h show "isPublishing ?pclick \<and> length (preview_timers ?pclick) = 1
          \<and> \<not> isPublishing ?pfired \<and> preview_timers ?pfired = []
          \<and> preview_step PreviewTimerFires ?pfired = ?pfired
          \<and> isPublished ?pfired
          \<and> ?pfired = p\<lparr>isPublished := True, preview_clock := preview_clock p + 1500\<rparr>"
      by blast
  qed
  have p4: "e' \<noteq> PreviewTimerFires \<longrightarrow>
          prefix (preview_timers p) (preview_timers (preview_step e' p))
          \<and> (isPublishing p \<longrightarrow> isPublishing (preview_step e' p))"
    using preview_timers_kept preview_pending_kept by blast
  from c1 c2 c3 c4 p1 p2 p3 p4 show ?thesis by blast
qed

theorem click_runs_one_operation_witness:
  "\<not> generate_disabled (create_run [ChangePrompt ''Q4 sales''] create_init)
   \<and> isGenerating (create_step ClickGenerate (create_run [ChangePrompt ''Q4 sales''] create_init))
   \<and> \<not> isGenerating (create_step CreateTimerFires
         (create_step ClickGenerate (create_run [ChangePrompt ''Q4 sales''] create_init)))
   \<and> navigated (create_step CreateTimerFires
         (create_step ClickGenerate (create_run [ChangePrompt ''Q4 sales''] create_init)))
      = [(''/reports/preview'', ''Q4 sales'')]
   \<and> \<not> publish_disabled (preview_run [] preview_init)
   \<and> isPublishing (preview_step ClickPublish (preview_run [] preview_init))
   \<and> \<not> isPublishing (preview_step PreviewTimerFires
         (preview_step ClickPublish (preview_run [] preview_init)))
   \<and> isPublished (preview_step PreviewTimerFires
         (preview_step ClickPublish (preview_run [] preview_init)))"
proof -
  let ?s = "create_run [ChangePrompt ''Q4 sales''] create_init"
  have g: "\<not> generate_disabled ?s" by code_simp
  have p: "\<not> publish_disabled (preview_run [] preview_init)" by code_simp
  have v: "prompt ?s = ''Q4 sales''" "navigated ?s = []"
    by (simp_all add: create_run_def create_init_def)
  note t = click_runs_one_operation
      [where es = "[ChangePrompt ''Q4 sales'']" and ps = "[]" and e = ClickGenerate
         and e' = ClickPublish, OF refl refl]
  from t g have "navigated (create_step CreateTimerFires (create_step ClickGenerate ?s))
      = navigated ?s @ [(''/reports/preview'', prompt ?s)]"
    by blast
  then have n: "navigated (create_step CreateTimerFires (create_step ClickGenerate ?s))
      = [(''/reports/preview'', ''Q4 sales'')]"
    by (simp only: v append_Nil)
  from g p n t show ?thesis by blast
qed

text \<open>
  C6. In every reached state with the button enabled, the click on Generate sets
  \<open>isGenerating\<close> and registers one timer due 2000 ms later, and nothing else.
  Whatever the user does before that timer fires (edit the prompt, click, let time pass),
  the flag stays set, the timer stays in place, the clock cannot pass the due time and
  no navigation happens; the firing then clears the flag, at exactly 2000 ms after the
  click, and navigates to \<open>/reports/preview\<close> with the prompt of the click, and
  changes nothing else. Publish does the same with \<open>isPublishing\<close> and 1500 ms,
  and its firing sets \<open>isPublished\<close>. After the firing no timer is left: nothing
  is retried, nothing is done in part, nothing is cancelled.
\<close>

theorem generate_and_publish_are_fixed_delays:
  assumes "s = create_run es create_init" and "p = preview_run ps preview_init"
  shows
    "(\<not> generate_disabled s \<and> CreateTimerFires \<notin> set ws \<longrightarrow>
        create_step ClickGenerate s =
          s\<lparr>isGenerating := True,
            create_timers := [(create_clock s + 2000, ResumeGenerate (prompt s))]\<rparr>
        \<and> isGenerating (create_run ws (create_step ClickGenerate s))
        \<and> create_timers (create_run ws (create_step ClickGenerate s)) =
            [(create_clock s + 2000, ResumeGenerate (prompt s))]
        \<and> create_clock (create_run ws (create_step ClickGenerate s)) \<le> create_clock s + 2000
        \<and> navigated (create_run ws (create_step ClickGenerate s)) = navigated s
        \<and> create_step CreateTimerFires (create_run ws (create_step ClickGenerate s)) =
            (create_run ws (create_step ClickGenerate s))
              \<lparr>isGenerating := False, create_clock := create_clock s + 2000,
               create_timers := [],
               navigated := navigated s @ [(''/reports/preview'', prompt s)]\<rparr>)
     \<and> (\<not> publish_disabled p \<and> PreviewTimerFires \<notin> set vs \<longrightarrow>
        preview_step ClickPublish p =
          p\<lparr>isPublishing := True,
            preview_timers := [(preview_clock p + 1500, ResumePublish)]\<rparr>
        \<and> isPublishing (preview_run vs (preview_step ClickPublish p))
        \<and> \<not> isPublished (preview_run vs (preview_step ClickPublish p))
        \<and> preview_timers (preview_run vs (preview_step ClickPublish p)) =
            [(preview_clock p + 1500, ResumePublish)]
        \<and> preview_clock (preview_run vs (preview_step ClickPublish p)) \<le> preview_clock p + 1500
        \<and> preview_step PreviewTimerFires (preview_run vs (preview_step ClickPublish p)) =
            (preview_run vs (preview_step ClickPublish p))
              \<lparr>isPublishing := False, isPublished := True,
               preview_clock := preview_clock p + 1500, preview_timers := []\<rparr>)"
proof (intro conjI impI)
  assume h: "\<not> generate_disabled s \<and> CreateTimerFires \<notin> set ws"
  have ci: "create_inv s" unfolding assms(1) by (rule create_inv_run)
  from h have en: "\<not> generate_disabled s" and nf: "CreateTimerFires \<notin> set ws"
    by simp_all
  from ci en show "create_step ClickGenerate s =
          s\<lparr>isGenerating := True,
            create_timers := [(create_clock s + 2000, ResumeGenerate (prompt s))]\<rparr>"
    by (rule create_click_enabled)
  from ci en have "create_pending s (create_step ClickGenerate s)"
    by (rule create_click_pending)
  from this nf have pend: "create_pending s (create_run ws (create_step ClickGenerate s))"
    by (rule create_pending_run)
  from pend show "isGenerating (create_run ws (create_step ClickGenerate s))"
    by (simp add: create_pending_def)
  from pend show "create_timers (create_run ws (create_step ClickGenerate s)) =
            [(create_clock s + 2000, ResumeGenerate (prompt s))]"
    by (simp add: create_pending_def)
  from pend show "create_clock (create_run ws (create_step ClickGenerate s)) \<le> create_clock s + 2000"
    by (simp add: create_pending_def)
  from pend show "navigated (create_run ws (create_step ClickGenerate s)) = navigated s"
    by (simp add: create_pending_def)
  from pend show "create_step CreateTimerFires (create_run ws (create_step ClickGenerate s)) =
            (create_run ws (create_step ClickGenerate s))
              \<lparr>isGenerating := False, create_clock := create_clock s + 2000,
               create_timers := [],
               navigated := navigated s @ [(''/reports/preview'', prompt s)]\<rparr>"
    by (rule create_pending_fire)
next
  assume h: "\<not> publish_disabled p \<and> PreviewTimerFires \<notin> set vs"
  have pi: "preview_inv p" unfolding assms(2) by (rule preview_inv_run)
  from h have en: "\<not> publish_disabled p" and nf: "PreviewTimerFires \<notin> set vs"
    by simp_all
  from pi en show "preview_step ClickPublish p =
          p\<lparr>isPublishing := True,
            preview_timers := [(preview_clock p + 1500, ResumePublish)]\<rparr>"
    by (rule preview_click_enabled)
  from pi en have "preview_pending p (preview_step ClickPublish p)"
    by (rule preview_click_pending)
  from this nf have pend: "preview_pending p (preview_run vs (preview_step ClickPublish p))"
    by (rule preview_pending_run)
  from pend show "isPublishing (preview_run vs (preview_step ClickPublish p))"
    by (simp add: preview_pending_def)
  from pend show "\<not> isPublished (preview_run vs (preview_step ClickPublish p))"
    by (simp add: preview_pending_def)
  from pend show "preview_timers (preview_run vs (preview_step ClickPublish p)) =
            [(preview_clock p + 1500, ResumePublish)]"
    by (simp add: preview_pending_def)
  from pend show "preview_clock (preview_run vs (preview_step ClickPublish p)) \<le> preview_clock p + 1500"
    by (simp add: preview_pending_def)
  from pend show "preview_step PreviewTimerFires (preview_run vs (preview_step ClickPublish p)) =
            (preview_run vs (preview_step ClickPublish p))
              \<lparr>isPublishing := False, isPublished := True,
               preview_clock := preview_clock p + 1500, preview_timers := []\<rparr>"
    by (rule preview_pending_fire)
qed

theorem generate_and_publish_are_fixed_delays_witness:
  "\<not> generate_disabled (create_run [ChangePrompt ''Q4 sales''] create_init)
   \<and> CreateTimerFires \<notin> set [ChangePrompt ''other'', CreateWait 700]
   \<and> isGenerating (create_run [ChangePrompt ''other'', CreateWait 700]
        (create_step ClickGenerate (create_run [ChangePrompt ''Q4 sales''] create_init)))
   \<and> navigated (create_step CreateTimerFires
        (create_run [ChangePrompt ''other'', CreateWait 700]
          (create_step ClickGenerate (create_run [ChangePrompt ''Q4 sales''] create_init))))
       = [(''/reports/preview'', ''Q4 sales'')]
   \<and> create_clock (create_step CreateTimerFires
        (create_run [ChangePrompt ''other'', CreateWait 700]
          (create_step ClickGenerate (create_run [ChangePrompt ''Q4 sales''] create_init))))
       = 2000
   \<and> \<not> publish_disabled (preview_run [] preview_init)
   \<and> PreviewTimerFires \<notin> set [PreviewWait 1500]
   \<and> isPublishing (preview_run [PreviewWait 1500]
        (preview_step ClickPublish (preview_run [] preview_init)))
   \<and> preview_step PreviewTimerFires
        (preview_run [PreviewWait 1500] (preview_step ClickPublish (preview_run [] preview_init)))
       = \<lparr>isPublishing = False, isPublished = True, preview_clock = 1500, preview_timers = []\<rparr>"
proof -
  let ?s = "create_run [ChangePrompt ''Q4 sales''] create_init"
  let ?ws = "[ChangePrompt ''other'', CreateWait 700]"
  let ?p = "preview_run [] preview_init"
  let ?vs = "[PreviewWait 1500]"
  have g: "\<not> generate_disabled ?s" by code_simp
  have n: "CreateTimerFires \<notin> set ?ws" by simp
  have q: "\<not> publish_disabled ?p" by code_simp
  have m: "PreviewTimerFires \<notin> set ?vs" by simp
  have v: "prompt ?s = ''Q4 sales''" "navigated ?s = []" "create_clock ?s = 0"
    by (simp_all add: create_run_def create_init_def)
  have w: "preview_clock ?p = 0" by (simp add: preview_run_def preview_init_def)
  note t = generate_and_publish_are_fixed_delays
      [where es = "[ChangePrompt ''Q4 sales'']" and ps = "[]" and ws = ?ws and vs = ?vs,
        OF refl refl]
  from t g n have a: "isGenerating (create_run ?ws (create_step ClickGenerate ?s))"
    by blast
  from t g n have "create_step CreateTimerFires (create_run ?ws (create_step ClickGenerate ?s))
      = (create_run ?ws (create_step ClickGenerate ?s))
              \<lparr>isGenerating := False, create_clock := create_clock ?s + 2000,
               create_timers := [],
               navigated := navigated ?s @ [(''/reports/preview'', prompt ?s)]\<rparr>"
    by blast
  moreover have "\<And>r a b c d. navigated (r\<lparr>isGenerating := a, create_clock := b,
      create_timers := c, navigated := d\<rparr>) = d" by simp
  moreover have "\<And>r a b c d. create_clock (r\<lparr>isGenerating := a, create_clock := b,
      create_timers := c, navigated := d\<rparr>) = b" by simp
  ultimately have b: "navigated (create_step CreateTimerFires
        (create_run ?ws (create_step ClickGenerate ?s))) = [(''/reports/preview'', ''Q4 sales'')]"
    and c: "create_clock (create_step CreateTimerFires
        (create_run ?ws (create_step ClickGenerate ?s))) = 2000"
    by (simp_all only: v append_Nil add_0)
  from t q m have d: "isPublishing (preview_run ?vs (preview_step ClickPublish ?p))"
    by blast
  from t q m have "preview_step PreviewTimerFires (preview_run ?vs (preview_step ClickPublish ?p))
      = (preview_run ?vs (preview_step ClickPublish ?p))
              \<lparr>isPublishing := False, isPublished := True,
               preview_clock := preview_clock ?p + 1500, preview_timers := []\<rparr>"
    by blast
  then have e: "preview_step PreviewTimerFires (preview_run ?vs (preview_step ClickPublish ?p))
       = \<lparr>isPublishing = False, isPublished = True, preview_clock = 1500, preview_timers = []\<rparr>"
    by (simp only: w add_0) simp
  from g n a b c q m d e show ?thesis by blast
qed

text \<open>
  C8. With an empty prompt, or one of white space only, \<open>handleGenerate\<close> returns
  the state as it is: no flag is set, no timer is registered, nothing is navigated.
  The Generate button is disabled for such a prompt, so a click changes nothing either.
\<close>

theorem blank_prompt_generate_is_noop:
  assumes "whitespaceOnly (prompt s)"
  shows "handleGenerate s = s \<and> generate_disabled s \<and> create_step ClickGenerate s = s"
  using assms by (simp add: trim_empty_iff handleGenerate_def generate_disabled_def)

theorem blank_prompt_generate_is_noop_witness:
  "whitespaceOnly (prompt (create_init\<lparr>prompt := [CHR '' '', CHR 0x09, CHR 0x0A]\<rparr>))
   \<and> handleGenerate (create_init\<lparr>prompt := [CHR '' '', CHR 0x09, CHR 0x0A]\<rparr>)
       = create_init\<lparr>prompt := [CHR '' '', CHR 0x09, CHR 0x0A]\<rparr>
   \<and> generate_disabled (create_init\<lparr>prompt := [CHR '' '', CHR 0x09, CHR 0x0A]\<rparr>)
   \<and> whitespaceOnly (prompt create_init)
   \<and> handleGenerate create_init = create_init"
proof -
  have a: "whitespaceOnly (prompt (create_init\<lparr>prompt := [CHR '' '', CHR 0x09, CHR 0x0A]\<rparr>))"
    by code_simp
  have b: "whitespaceOnly (prompt create_init)" by code_simp
  from a b
    blank_prompt_generate_is_noop [OF a]
    blank_prompt_generate_is_noop [OF b]
  show ?thesis by blast
qed

text \<open>
  C9. No event sets \<open>isPublished\<close> back to false, in any state. Whenever
  \<open>isPublished\<close> is true the Publish button is disabled and a click changes
  nothing. In a state reached from the initial one in which \<open>isPublished\<close> is
  true, no timer is outstanding, and after any further events the page is still
  published, not publishing and without a timer: no second publish operation starts.
\<close>

theorem publish_at_most_once:
  assumes "p = preview_run ps preview_init"
  shows
    "(isPublished s \<longrightarrow> isPublished (preview_step e s))
     \<and> (isPublished s \<longrightarrow> publish_disabled s \<and> preview_step ClickPublish s = s)
     \<and> (isPublished p \<longrightarrow>
          isPublished (preview_run vs p) \<and> \<not> isPublishing (preview_run vs p)
          \<and> preview_timers (preview_run vs p) = [])"
proof (intro conjI impI)
  assume "isPublished s"
  then show "isPublished (preview_step e s)" by (rule preview_published_kept)
next
  assume "isPublished s"
  then show "publish_disabled s" by (simp add: publish_disabled_def)
next
  assume "isPublished s"
  then show "preview_step ClickPublish s = s" by (simp add: publish_disabled_def)
next
  assume a: "isPublished p"
  have "preview_inv p" unfolding assms by (rule preview_inv_run)
  with a have "preview_done p" by (auto simp: preview_inv_def preview_done_def)
  then have d: "preview_done (preview_run vs p)" by (rule preview_done_run)
  from d show "isPublished (preview_run vs p)" by (simp add: preview_done_def)
  from d show "\<not> isPublishing (preview_run vs p)" by (simp add: preview_done_def)
  from d show "preview_timers (preview_run vs p) = []" by (simp add: preview_done_def)
qed

theorem publish_at_most_once_witness:
  "isPublished (preview_run [ClickPublish, PreviewTimerFires] preview_init)
   \<and> publish_disabled (preview_run [ClickPublish, PreviewTimerFires] preview_init)
   \<and> preview_run [ClickPublish, PreviewWait 10, PreviewTimerFires, ClickPublish]
        (preview_run [ClickPublish, PreviewTimerFires] preview_init)
      = \<lparr>isPublishing = False, isPublished = True, preview_clock = 1510, preview_timers = []\<rparr>"
proof -
  let ?p = "preview_run [ClickPublish, PreviewTimerFires] preview_init"
  have a: "isPublished ?p" by code_simp
  have c: "preview_run [ClickPublish, PreviewWait 10, PreviewTimerFires, ClickPublish] ?p
      = \<lparr>isPublishing = False, isPublished = True, preview_clock = 1510, preview_timers = []\<rparr>"
    by code_simp
  from a publish_at_most_once
      [where ps = "[ClickPublish, PreviewTimerFires]" and s = ?p and e = ClickPublish
         and vs = "[ClickPublish, PreviewWait 10, PreviewTimerFires, ClickPublish]", OF refl]
  have b: "publish_disabled ?p" by blast
  from a b c show ?thesis by blast
qed

text \<open>
  C4. No handler and no timer callback has an operation that can throw, so each is a
  function from state to state, without an error result. In every state, an invocation
  of \<open>handleGenerate\<close> with a blank prompt returns at once with the state unchanged;
  with any other prompt it sets the pending flag, and once the outstanding timers have
  fired the flag is cleared, no timer is left and the navigation with the prompt has
  been made. An invocation of \<open>handlePublish\<close> sets its flag, and once the
  outstanding timers have fired the page is published and no longer publishing. An
  invocation of \<open>handleSave\<close> sets its flag, and after at least one and at most as
  many firings as there are outstanding timers the page is saved and no longer saving.
\<close>

theorem simulated_operations_always_resolve:
  "(trim (prompt s) = [] \<longrightarrow> handleGenerate s = s)
   \<and> (trim (prompt s) \<noteq> [] \<longrightarrow>
        isGenerating (handleGenerate s)
        \<and> create_timers
            ((create_fire ^^ length (create_timers (handleGenerate s))) (handleGenerate s)) = []
        \<and> \<not> isGenerating
            ((create_fire ^^ length (create_timers (handleGenerate s))) (handleGenerate s))
        \<and> (''/reports/preview'', prompt s) \<in> set (navigated
            ((create_fire ^^ length (create_timers (handleGenerate s))) (handleGenerate s))))
   \<and> isPublishing (handlePublish p)
   \<and> preview_timers
        ((preview_fire ^^ length (preview_timers (handlePublish p))) (handlePublish p)) = []
   \<and> \<not> isPublishing
        ((preview_fire ^^ length (preview_timers (handlePublish p))) (handlePublish p))
   \<and> isPublished
        ((preview_fire ^^ length (preview_timers (handlePublish p))) (handlePublish p))
   \<and> isSaving (handleSave t)
   \<and> (\<exists>n. 1 \<le> n \<and> n \<le> length (settings_timers (handleSave t))
          \<and> \<not> isSaving ((settings_fire ^^ n) (handleSave t))
          \<and> saved ((settings_fire ^^ n) (handleSave t)))"
proof -
  have g0: "trim (prompt s) = [] \<longrightarrow> handleGenerate s = s"
    by (simp add: handleGenerate_def)
  have g1: "trim (prompt s) \<noteq> [] \<longrightarrow>
        isGenerating (handleGenerate s)
        \<and> create_timers
            ((create_fire ^^ length (create_timers (handleGenerate s))) (handleGenerate s)) = []
        \<and> \<not> isGenerating
            ((create_fire ^^ length (create_timers (handleGenerate s))) (handleGenerate s))
        \<and> (''/reports/preview'', prompt s) \<in> set (navigated
            ((create_fire ^^ length (create_timers (handleGenerate s))) (handleGenerate s)))"
  proof
    assume ne: "trim (prompt s) \<noteq> []"
    then have m: "(create_clock s + 2000, ResumeGenerate (prompt s))
        \<in> set (create_timers (handleGenerate s))"
      by (simp add: handleGenerate_def setTimeout_def)
    then have pos: "length (create_timers (handleGenerate s)) \<noteq> 0" by auto
    from ne have ig: "isGenerating (handleGenerate s)" by (simp add: handleGenerate_def)
    from create_drain[OF refl, of "handleGenerate s"] m pos ig
    show "isGenerating (handleGenerate s)
        \<and> create_timers
            ((create_fire ^^ length (create_timers (handleGenerate s))) (handleGenerate s)) = []
        \<and> \<not> isGenerating
            ((create_fire ^^ length (create_timers (handleGenerate s))) (handleGenerate s))
        \<and> (''/reports/preview'', prompt s) \<in> set (navigated
            ((create_fire ^^ length (create_timers (handleGenerate s))) (handleGenerate s)))"
      by blast
  qed
  have pos: "length (preview_timers (handlePublish p)) \<noteq> 0"
    by (simp add: handlePublish_def setTimeout_def)
  have p0: "isPublishing (handlePublish p)" by (simp add: handlePublish_def)
  from preview_drain[OF refl, of "handlePublish p"] pos
  have p1: "preview_timers
        ((preview_fire ^^ length (preview_timers (handlePublish p))) (handlePublish p)) = []
   \<and> \<not> isPublishing
        ((preview_fire ^^ length (preview_timers (handlePublish p))) (handlePublish p))
   \<and> isPublished
        ((preview_fire ^^ length (preview_timers (handlePublish p))) (handlePublish p))"
    by blast
  have s0: "isSaving (handleSave t)" by (simp add: handleSave_def)
  from g0 g1 p0 p1 s0 handleSave_resolves[of t] show ?thesis by blast
qed

theorem simulated_operations_always_resolve_witness:
  "trim (prompt (create_init\<lparr>prompt := ''Q4 sales''\<rparr>)) \<noteq> []
   \<and> (create_fire ^^ 1) (handleGenerate (create_init\<lparr>prompt := ''Q4 sales''\<rparr>))
      = \<lparr>prompt = ''Q4 sales'', isGenerating = False, create_clock = 2000, create_timers = [],
         navigated = [(''/reports/preview'', ''Q4 sales'')]\<rparr>
   \<and> (''/reports/preview'', ''Q4 sales'') \<in> set (navigated
        ((create_fire ^^ length (create_timers (handleGenerate (create_init\<lparr>prompt := ''Q4 sales''\<rparr>))))
           (handleGenerate (create_init\<lparr>prompt := ''Q4 sales''\<rparr>))))
   \<and> (preview_fire ^^ 1) (handlePublish preview_init)
      = \<lparr>isPublishing = False, isPublished = True, preview_clock = 1500, preview_timers = []\<rparr>
   \<and> (settings_fire ^^ 1) (handleSave settings_init)
      = \<lparr>isSaving = False, saved = True, settings_clock = 1000,
         settings_timers = [(3000, ClearSaved)]\<rparr>
   \<and> (settings_fire ^^ 2) (handleSave settings_init)
      = \<lparr>isSaving = False, saved = False, settings_clock = 3000, settings_timers = []\<rparr>"
proof -
  let ?s = "create_init\<lparr>prompt := ''Q4 sales''\<rparr>"
  have a: "trim (prompt ?s) \<noteq> []" by code_simp
  have b: "(create_fire ^^ 1) (handleGenerate ?s)
      = \<lparr>prompt = ''Q4 sales'', isGenerating = False, create_clock = 2000, create_timers = [],
         navigated = [(''/reports/preview'', ''Q4 sales'')]\<rparr>" by code_simp
  have p: "prompt ?s = ''Q4 sales''" by simp
  from a simulated_operations_always_resolve[of ?s preview_init settings_init]
  have c: "(''/reports/preview'', ''Q4 sales'') \<in> set (navigated
        ((create_fire ^^ length (create_timers (handleGenerate ?s))) (handleGenerate ?s)))"
    unfolding p by blast
  have d: "(preview_fire ^^ 1) (handlePublish preview_init)
      = \<lparr>isPublishing = False, isPublished = True, preview_clock = 1500, preview_timers = []\<rparr>"
    by code_simp
  have e: "(settings_fire ^^ 1) (handleSave settings_init)
      = \<lparr>isSaving = False, saved = True, settings_clock = 1000,
         settings_timers = [(3000, ClearSaved)]\<rparr>" by code_simp
  have f: "(settings_fire ^^ 2) (handleSave settings_init)
      = \<lparr>isSaving = False, saved = False, settings_clock = 3000, settings_timers = []\<rparr>"
    by code_simp
  from a b c d e f show ?thesis by blast
qed

section \<open>Rendering of the report preview\<close>

lemma render_body_table:
  "section_type s = ''table'' \<Longrightarrow> section_data s = Some (row0 # rest) \<Longrightarrow>
     render_body s = Inr (TableBody (map fst row0) (map render_row (row0 # rest)))"
  by (simp add: render_body_def)

lemma render_body_text:
  "section_type s \<noteq> ''table'' \<or> section_data s = None \<Longrightarrow>
     render_body s = Inr (Paragraph (section_content s))"
  by (auto simp: render_body_def)

lemma render_body_empty_table:
  "section_type s = ''table'' \<Longrightarrow> section_data s = Some [] \<Longrightarrow> render_body s = Inl TypeError"
  by (simp add: render_body_def)

lemma render_section_ok:
  assumes "section_type s = ''table'' \<longrightarrow> section_data s \<noteq> Some []"
  shows "\<exists>v. render_section i s = Inr v \<and> sv_key v = section_id s \<and> sv_index v = i
           \<and> sv_title v = section_title s
           \<and> (is_table (sv_body v) \<longleftrightarrow> section_type s = ''table'' \<and> section_data s \<noteq> None)"
proof (cases "section_type s = ''table'' \<and> section_data s \<noteq> None")
  case True
  with assms obtain row0 rest where "section_data s = Some (row0 # rest)"
    by (cases "section_data s"; cases "the (section_data s)") auto
  with True show ?thesis
    by (simp add: render_section_def render_body_table is_table_def)
next
  case False
  then have "render_body s = Inr (Paragraph (section_content s))"
    by (intro render_body_text) blast
  with False show ?thesis
    by (simp add: render_section_def is_table_def)
qed

lemma render_sections_ok:
  assumes "\<forall>s\<in>set ss. section_type s = ''table'' \<longrightarrow> section_data s \<noteq> Some []"
  shows "\<exists>vs. render_sections i ss = Inr vs
           \<and> map sv_key vs = map section_id ss
           \<and> map sv_title vs = map section_title ss
           \<and> map sv_index vs = [i..<i + length ss]
           \<and> map (\<lambda>v. is_table (sv_body v)) vs
               = map (\<lambda>s. section_type s = ''table'' \<and> section_data s \<noteq> None) ss"
  using assms
proof (induction ss arbitrary: i)
  case Nil
  then show ?case by simp
next
  case (Cons s ss)
  from Cons.prems have "section_type s = ''table'' \<longrightarrow> section_data s \<noteq> Some []" by simp
  from render_section_ok[OF this, of i] obtain v where
    v: "render_section i s = Inr v" "sv_key v = section_id s" "sv_index v = i"
       "sv_title v = section_title s"
       "is_table (sv_body v) \<longleftrightarrow> section_type s = ''table'' \<and> section_data s \<noteq> None"
    by blast
  from Cons.prems have "\<forall>s\<in>set ss. section_type s = ''table'' \<longrightarrow> section_data s \<noteq> Some []"
    by simp
  from Cons.IH[OF this, of "Suc i"] obtain vs where
    vs: "render_sections (Suc i) ss = Inr vs" "map sv_key vs = map section_id ss"
        "map sv_title vs = map section_title ss" "map sv_index vs = [Suc i..<Suc i + length ss]"
        "map (\<lambda>v. is_table (sv_body v)) vs
           = map (\<lambda>s. section_type s = ''table'' \<and> section_data s \<noteq> None) ss"
    by blast
  have "render_sections i (s # ss) = Inr (v # vs)" using v(1) vs(1) by simp
  moreover have "[i..<i + length (s # ss)] = i # [Suc i..<Suc i + length ss]"
    using upt_conv_Cons[of i "i + length (s # ss)"] by (simp del: upt_Suc)
  then have "map sv_index (v # vs) = [i..<i + length (s # ss)]"
    using v(3) vs(4) by (simp del: upt_Suc)
  ultimately show ?case using v vs by simp
qed

lemma render_citations_map:
  assumes "\<And>index c. f (render_citation (length cs) index c) = g c"
  shows "map f (render_citations cs) = map g cs"
proof -
  have "map f (render_citations cs) = map (g \<circ> snd) (enumerate 0 cs)"
    by (simp add: render_citations_def case_prod_unfold comp_def assms)
  also have "\<dots> = map g (map snd (enumerate 0 cs))" by (simp only: map_map)
  also have "\<dots> = map g cs" by simp
  finally show ?thesis .
qed

lemma render_citations_numbered:
  "map cv_number (render_citations cs) = [1..<Suc (length cs)]
   \<and> map cv_key (render_citations cs) = map citation_id cs
   \<and> map cv_source (render_citations cs) = map citation_source cs
   \<and> map cv_excerpt (render_citations cs) = map citation_excerpt cs
   \<and> map cv_link (render_citations cs)
       = map (\<lambda>c. if truthy (citation_url c) then citation_url c else None) cs"
proof -
  have "map cv_number (render_citations cs) = map (Suc \<circ> fst) (enumerate 0 cs)"
    by (simp add: render_citations_def render_citation_def case_prod_unfold comp_def)
  also have "\<dots> = map Suc (map fst (enumerate 0 cs))" by (simp only: map_map)
  also have "\<dots> = [1..<Suc (length cs)]" by (simp add: map_Suc_upt)
  finally have a: "map cv_number (render_citations cs) = [1..<Suc (length cs)]" .
  have b: "map cv_key (render_citations cs) = map citation_id cs"
    by (rule render_citations_map) (simp add: render_citation_def)
  have c: "map cv_source (render_citations cs) = map citation_source cs"
    by (rule render_citations_map) (simp add: render_citation_def)
  have d: "map cv_excerpt (render_citations cs) = map citation_excerpt cs"
    by (rule render_citations_map) (simp add: render_citation_def)
  have e: "map cv_link (render_citations cs)
       = map (\<lambda>c. if truthy (citation_url c) then citation_url c else None) cs"
    by (rule render_citations_map) (simp add: render_citation_def)
  from a b c d e show ?thesis by blast
qed

lemma render_report_ok:
  assumes "\<forall>s\<in>set (sections report). section_type s = ''table'' \<longrightarrow> section_data s \<noteq> Some []"
  shows "\<exists>view. render_report report = Inr view
           \<and> pv_summary view = executiveSummary report
           \<and> map sv_key (pv_sections view) = map section_id (sections report)
           \<and> map (\<lambda>v. is_table (sv_body v)) (pv_sections view)
               = map (\<lambda>s. section_type s = ''table'' \<and> section_data s \<noteq> None) (sections report)
           \<and> pv_citations view = render_citations (citations report)"
proof -
  from render_sections_ok[OF assms, of 0] obtain vs where
    "render_sections 0 (sections report) = Inr vs"
    "map sv_key vs = map section_id (sections report)"
    "map (\<lambda>v. is_table (sv_body v)) vs
       = map (\<lambda>s. section_type s = ''table'' \<and> section_data s \<noteq> None) (sections report)"
    by blast
  then show ?thesis by (simp add: render_report_def)
qed

text \<open>The example report with rows in its table section, rendered.\<close>

lemma render_report_demo:
  "render_report demo_report =
     Inr \<lparr>pv_summary = ''Revenue grew in Q4.'',
          pv_sections =
            [\<lparr>sv_key = ''s1'', sv_index = 0, sv_icon = LightbulbIcon, sv_title = ''Overview'',
              sv_body = Paragraph (Some ''Revenue grew by 12%.'')\<rparr>,
             \<lparr>sv_key = ''s2'', sv_index = 1, sv_icon = TableIcon, sv_title = ''Metrics'',
              sv_body =
                TableBody [''Metric'', ''Change'']
                  [[\<lparr>cell_key = ''Metric'', cell_first = True, cell_tone = no_tone,
                     cell_text = ''Revenue''\<rparr>,
                    \<lparr>cell_key = ''Change'', cell_first = False, cell_tone = text_success,
                     cell_text = ''+12%''\<rparr>],
                   [\<lparr>cell_key = ''Metric'', cell_first = True, cell_tone = no_tone,
                     cell_text = ''Churn''\<rparr>,
                    \<lparr>cell_key = ''Change'', cell_first = False, cell_tone = text_destructive,
                     cell_text = ''-3%''\<rparr>]]\<rparr>],
          pv_citations =
            [\<lparr>cv_key = ''c1'', cv_number = 1, cv_link = Some ''https://example.com/a'',
              cv_source = ''Annual report'', cv_excerpt = ''Revenue figures'',
              cv_separator = True\<rparr>,
             \<lparr>cv_key = ''c2'', cv_number = 2, cv_link = None,
              cv_source = ''Internal memo'', cv_excerpt = ''Churn figures'',
              cv_separator = False\<rparr>]\<rparr>"
  by code_simp

lemma render_sections_throws:
  assumes "s \<in> set ss" and "section_type s = ''table''" and "section_data s = Some []"
  shows "render_sections i ss = Inl TypeError"
  using assms(1)
proof (induction ss arbitrary: i)
  case Nil
  then show ?case by simp
next
  case (Cons x xs)
  show ?case
  proof (cases "render_section i x")
    case (Inl e)
    then show ?thesis by (cases e) simp
  next
    case (Inr v)
    have "x \<noteq> s"
    proof
      assume "x = s"
      with assms(2,3) have "render_section i x = Inl TypeError"
        by (simp add: render_section_def render_body_empty_table)
      with Inr show False by simp
    qed
    with Cons.prems have "s \<in> set xs" by auto
    then have "render_sections (Suc i) xs = Inl TypeError" by (rule Cons.IH)
    with Inr show ?thesis by simp
  qed
qed

text \<open>
  C7 says that a section of type 'table' that has data is rendered as a table, and every
  other section as text. A table section whose data is the empty array has data in the
  sense of the test \<^verbatim>\<open>section.data\<close>, and the code then reads the keys of
  \<^verbatim>\<open>section.data[0]\<close>, which is undefined: whenever the report has such a
  section the rendering of the whole preview ends with a TypeError, and neither a table
  nor a text is rendered. (For reports without such a section the claim holds:
  \<open>render_report_ok\<close>, \<open>render_citations_numbered\<close>.)
\<close>

theorem empty_table_section_throws:
  assumes "s \<in> set (sections report)" and "section_type s = ''table''"
    and "section_data s = Some []"
  shows "render_report report = Inl TypeError"
  using render_sections_throws[OF assms, of 0] by (simp add: render_report_def)

theorem empty_table_section_throws_witness:
  "sections empty_table_report ! 1 \<in> set (sections empty_table_report)
   \<and> section_type (sections empty_table_report ! 1) = ''table''
   \<and> section_data (sections empty_table_report ! 1) = Some []
   \<and> render_report empty_table_report = Inl TypeError"
proof -
  have m: "sections empty_table_report ! 1 \<in> set (sections empty_table_report)" by code_simp
  have a: "section_type (sections empty_table_report ! 1) = ''table''" by code_simp
  have b: "section_data (sections empty_table_report ! 1) = Some []" by code_simp
  from m a b empty_table_section_throws[OF m a b] show ?thesis by blast
qed

section \<open>Authentication gate\<close>

text \<open>
  The shell decides on the flag alone: without it the redirect to \<open>/auth\<close>, with it
  the children, whatever they are. The five pages whose children cannot throw, and the
  report preview on a report in which every table section with data has a row, render
  what the shell returns.
\<close>

lemma AppLayout_gate:
  "AppLayout isAuthenticated children
     = (if isAuthenticated then Shell children else Navigate ''/auth'' True)"
  by (simp add: AppLayout_def)

lemma wrapped_view_gate:
  assumes "v \<in> set wrapped_views" and "v \<noteq> ReportPreview"
  shows "render_view isAuthenticated report v
           = Inr (if isAuthenticated then Shell (PageContent v) else Navigate ''/auth'' True)"
  using assms by (auto simp: wrapped_views_def AppLayout_def)

lemma preview_gate:
  assumes "\<forall>s\<in>set (sections report). section_type s = ''table'' \<longrightarrow> section_data s \<noteq> Some []"
  shows "\<exists>children. render_report report = Inr children
           \<and> render_view isAuthenticated report ReportPreview
               = Inr (if isAuthenticated then Shell (PreviewContent children)
                      else Navigate ''/auth'' True)"
proof -
  from render_report_ok[OF assms] obtain children where
    "render_report report = Inr children" by blast
  then show ?thesis by (simp add: AppLayout_def)
qed

text \<open>
  C3 says that every view wrapped in the shell renders the redirect to \<open>/auth\<close> when
  the session flag is false. The report preview is one of these views, but it builds its
  children before the shell is called: on a report with a table section whose data is the
  empty array the page function ends with the TypeError, whatever the flag, and no
  redirect is rendered.
\<close>

theorem preview_throws_before_the_gate:
  assumes "s \<in> set (sections report)" and "section_type s = ''table''"
    and "section_data s = Some []"
  shows "ReportPreview \<in> set wrapped_views
         \<and> render_view isAuthenticated report ReportPreview = Inl TypeError"
proof -
  have "render_report report = Inl TypeError"
    using render_sections_throws[OF assms, of 0] by (simp add: render_report_def)
  then show ?thesis by (simp add: wrapped_views_def)
qed

theorem preview_throws_before_the_gate_witness:
  "sections empty_table_report ! 1 \<in> set (sections empty_table_report)
   \<and> section_type (sections empty_table_report ! 1) = ''table''
   \<and> section_data (sections empty_table_report ! 1) = Some []
   \<and> ReportPreview \<in> set wrapped_views
   \<and> render_view False empty_table_report ReportPreview = Inl TypeError"
proof -
  have m: "sections empty_table_report ! 1 \<in> set (sections empty_table_report)" by code_simp
  have a: "section_type (sections empty_table_report ! 1) = ''table''" by code_simp
  have b: "section_data (sections empty_table_report ! 1) = Some []" by code_simp
  from m a b preview_throws_before_the_gate[OF m a b, of False] show ?thesis by blast
qed

end
